theory Spec2Isabelle
  imports Complex_Main "HOL-Library.AList" "HOL-Library.Multiset"
begin

text \<open>
  A model of the core of the slide translator: the batch translation of
  \<open>backend/translator.py\<close>, the collection of texts from the shape tree and the
  analysis pass of the same file, the job queue of \<open>backend/main.py\<close>, and the pricing
  calculator of \<open>backend/token_counter.py\<close>. Every function keeps the name it has in the
  source; an exception is a value \<open>Inl e\<close> of a sum type.
\<close>

section \<open>Python strings\<close>

text \<open>
  A Python \<open>str\<close> is a sequence of Unicode code points. The texts of a presentation are
  arbitrary (Japanese as a rule), so a text is a list of code points, each a natural
  number. \<open>str\<close> turns an ASCII literal into such a list.
\<close>

type_synonym pystr = "nat list"

definition str :: "string \<Rightarrow> pystr" where
  "str s = map of_char s"

text \<open>
  \<open>str.isspace\<close> of one code point: the code points that CPython counts as whitespace
  (U+0009..U+000D, U+001C..U+0020, U+0085, U+00A0, U+1680, U+2000..U+200A, U+2028,
  U+2029, U+202F, U+205F, U+3000).
\<close>

definition isspace :: "nat \<Rightarrow> bool" where
  "isspace c \<longleftrightarrow>
     (9 \<le> c \<and> c \<le> 13) \<or> (28 \<le> c \<and> c \<le> 32) \<or> c = 133 \<or> c = 160 \<or> c = 5760 \<or>
     (8192 \<le> c \<and> c \<le> 8202) \<or> c = 8232 \<or> c = 8233 \<or> c = 8239 \<or> c = 8287 \<or> c = 12288"

text \<open>\<open>s.strip()\<close>: leading and trailing whitespace removed.\<close>

definition strip :: "pystr \<Rightarrow> pystr" where
  "strip s = rev (dropWhile isspace (rev (dropWhile isspace s)))"

text \<open>\<open>str(n)\<close> of a non-negative integer: its decimal digits.\<close>

fun str_of_nat :: "nat \<Rightarrow> pystr" where
  "str_of_nat n = (if n < 10 then [48 + n] else str_of_nat (n div 10) @ [48 + n mod 10])"

declare str_of_nat.simps [simp del]

text \<open>The id \<open>f"text_{i}"\<close> of the unit at index \<open>i\<close> of the input list.\<close>

definition text_id :: "nat \<Rightarrow> pystr" where
  "text_id i = str ''text_'' @ str_of_nat i"


section \<open>The backend's answer\<close>

text \<open>
  What \<open>JsonOutputParser\<close> hands back is any JSON value. An object is the list of its
  items (the keys of a parsed object are distinct); numbers carry no payload that the code
  looks at, an integer stands for them.
\<close>

datatype json =
    JNull
  | JBool bool
  | JNum int
  | JStr pystr
  | JArr "json list"
  | JObj "(pystr \<times> json) list"

datatype py_error =
    BackendError
  | TypeError
  | KeyError
  | AttributeError
  | ValueError
  | PackageNotFoundError
  | NotImplementedError
  | OverflowError
  | ZeroDivisionError

text \<open>
  \<open>await chain.ainvoke(...)\<close> either raises (a network error, or the parser's exception on
  text that is not JSON) or returns the parsed value.
\<close>

datatype response = Raised | Parsed json

text \<open>One entry of \<open>non_empty_texts\<close>: \<open>{"id": ..., "text": ...}\<close>.\<close>

record item =
  item_id :: pystr
  item_text :: pystr

text \<open>
  The backend as the code sees it: the target language and the batch (which the prompt
  carries as \<open>items_json\<close>) determine the answer. Every batch of one call has its own
  ids, so a function of the batch covers backends that answer each request as they like.
\<close>

type_synonym backend = "pystr \<Rightarrow> item list \<Rightarrow> response"


section \<open>translate_texts_openai_async\<close>

text \<open>
  The loop over \<open>enumerate(texts)\<close> that fills \<open>non_empty_texts\<close> and
  \<open>text_indices\<close>.
\<close>

definition non_empty_texts :: "pystr list \<Rightarrow> item list" where
  "non_empty_texts texts =
     map (\<lambda>(i, t). \<lparr>item_id = text_id i, item_text = strip t\<rparr>)
       (filter (\<lambda>(i, t). strip t \<noteq> []) (enumerate 0 texts))"

definition text_indices :: "pystr list \<Rightarrow> nat list" where
  "text_indices texts = map fst (filter (\<lambda>(i, t). strip t \<noteq> []) (enumerate 0 texts))"

text \<open>\<open>for item in translations\<close>: what iterating the value yields, or \<open>TypeError\<close>.\<close>

fun iterate :: "json \<Rightarrow> py_error + json list" where
  "iterate (JArr es) = Inr es"
| "iterate (JObj d) = Inr (map (\<lambda>(k, v). JStr k) d)"
| "iterate (JStr s) = Inr (map (\<lambda>c. JStr [c]) s)"
| "iterate _ = Inl TypeError"

text \<open>A dictionary key must be hashable: lists and dictionaries are not.\<close>

fun hashable :: "json \<Rightarrow> bool" where
  "hashable (JArr _) = False"
| "hashable (JObj _) = False"
| "hashable _ = True"

text \<open>
  The pair \<open>item["id"]: item["translated"]\<close> of the dictionary comprehension, or the
  exception it raises: subscripting anything but a dictionary with a string is a
  \<open>TypeError\<close>, a missing key a \<open>KeyError\<close>, an unhashable id a \<open>TypeError\<close>.
\<close>

fun entry :: "json \<Rightarrow> py_error + (json \<times> json)" where
  "entry (JObj d) =
     (case map_of d (str ''id'') of
        None \<Rightarrow> Inl KeyError
      | Some k \<Rightarrow>
          (case map_of d (str ''translated'') of
             None \<Rightarrow> Inl KeyError
           | Some v \<Rightarrow> if hashable k then Inr (k, v) else Inl TypeError))"
| "entry _ = Inl TypeError"

text \<open>
  \<open>{item["id"]: item["translated"] for item in translations}\<close>, built left to right, a
  later entry replacing an earlier one with the same id. (Python also identifies the keys
  \<open>1\<close>, \<open>1.0\<close> and \<open>True\<close>; the dictionary is only ever read at string keys.)
\<close>

fun id_to_trans :: "(json \<rightharpoonup> json) \<Rightarrow> json list \<Rightarrow> py_error + (json \<rightharpoonup> json)" where
  "id_to_trans m [] = Inr m"
| "id_to_trans m (e # es) =
     (case entry e of
        Inl err \<Rightarrow> Inl err
      | Inr (k, v) \<Rightarrow> id_to_trans (m(k \<mapsto> v)) es)"

text \<open>
  The loop over the chunk: \<open>id_to_trans.get(item["id"], item["text"])\<close>, then
  \<open>translated.strip()\<close>, which only a string has (\<open>AttributeError\<close> otherwise); an empty
  or blank translation is replaced by the item's text.
\<close>

fun chunk_translations :: "(json \<rightharpoonup> json) \<Rightarrow> item list \<Rightarrow> py_error + pystr list" where
  "chunk_translations m [] = Inr []"
| "chunk_translations m (it # its) =
     (case (case m (JStr (item_id it)) of
              None \<Rightarrow> Inr (item_text it)
            | Some (JStr t) \<Rightarrow> Inr t
            | Some _ \<Rightarrow> Inl AttributeError) of
        Inl err \<Rightarrow> Inl err
      | Inr translated \<Rightarrow>
          (case chunk_translations m its of
             Inl err \<Rightarrow> Inl err
           | Inr rest \<Rightarrow>
               Inr ((if strip translated = [] then item_text it else translated) # rest)))"

text \<open>The body of the \<open>try\<close> in \<open>process_chunk\<close>.\<close>

definition try_chunk :: "response \<Rightarrow> item list \<Rightarrow> py_error + pystr list" where
  "try_chunk resp chunk =
     (case resp of
        Raised \<Rightarrow> Inl BackendError
      | Parsed (JObj d) \<Rightarrow>
          (case map_of d (str ''translations'') of
             None \<Rightarrow> Inr (map item_text chunk)
           | Some translations \<Rightarrow>
               (case iterate translations of
                  Inl err \<Rightarrow> Inl err
                | Inr es \<Rightarrow>
                    (case id_to_trans Map.empty es of
                       Inl err \<Rightarrow> Inl err
                     | Inr m \<Rightarrow> chunk_translations m chunk)))
      | Parsed _ \<Rightarrow> Inr (map item_text chunk))"

text \<open>\<open>process_chunk\<close>: the \<open>except Exception\<close> branch returns the texts of the chunk.\<close>

definition process_chunk :: "response \<Rightarrow> item list \<Rightarrow> pystr list" where
  "process_chunk resp chunk =
     (case try_chunk resp chunk of
        Inl err \<Rightarrow> map item_text chunk
      | Inr r \<Rightarrow> r)"

text \<open>
  \<open>[xs[i:i + batch_size] for i in range(0, len(xs), batch_size)]\<close> with
  \<open>batch_size = 10\<close>.
\<close>

definition batch_size :: nat where
  "batch_size = 10"

function batches :: "'a list \<Rightarrow> 'a list list" where
  "batches xs = (if xs = [] then [] else take batch_size xs # batches (drop batch_size xs))"
  by pat_completeness auto
termination
  by (relation "measure length") (auto simp: batch_size_def)

declare batches.simps [simp del]

text \<open>
  The last loop: \<open>final_results[original_index]\<close> is set for each entry of
  \<open>text_indices\<close>, counted by \<open>i\<close>. Every index written is below \<open>len(texts)\<close>
  (lemma \<open>text_indices_set\<close>), so the list update never leaves the list.
\<close>

fun restore_order :: "pystr list \<Rightarrow> pystr list \<Rightarrow> nat \<Rightarrow> nat list \<Rightarrow> pystr list \<Rightarrow> pystr list" where
  "restore_order texts all_translations i [] final_results = final_results"
| "restore_order texts all_translations i (original_index # rest) final_results =
     restore_order texts all_translations (Suc i) rest
       (final_results[original_index :=
          (if i < length all_translations then all_translations ! i
           else texts ! original_index)])"

text \<open>
  \<open>asyncio.gather\<close> returns the results of the tasks in the order of the tasks, whatever
  the order in which they finish: the list of results is the list of batches, mapped. The
  client and the prompt are built outside the \<open>try\<close>; building them is taken to succeed
  (an API key is set, which the service checks when it starts).
\<close>

definition translate_texts_openai_async :: "backend \<Rightarrow> pystr list \<Rightarrow> pystr \<Rightarrow> pystr list" where
  "translate_texts_openai_async be texts target_lang =
     (if texts = [] then []
      else if non_empty_texts texts = [] then replicate (length texts) []
      else
        let results = map (\<lambda>chunk. process_chunk (be target_lang chunk) chunk)
                        (batches (non_empty_texts texts));
            all_translations = concat results
        in restore_order texts all_translations 0 (text_indices texts)
             (replicate (length texts) []))"


section \<open>Backends and answers that the properties speak of\<close>

text \<open>A backend whose every call raises.\<close>

definition failing_backend :: backend where
  "failing_backend = (\<lambda>target_lang chunk. Raised)"

text \<open>
  The answer in the format that the prompt asks for:
  \<open>{"translations": [{"id": ..., "translated": ...}, ...]}\<close>. A backend that translates
  the item \<open>it\<close> into \<open>f it\<close> and lists the entries of a batch in the order
  \<open>shuffle\<close> puts them in.
\<close>

definition keyed_entry :: "(item \<Rightarrow> pystr) \<Rightarrow> item \<Rightarrow> json" where
  "keyed_entry f it = JObj [(str ''id'', JStr (item_id it)), (str ''translated'', JStr (f it))]"

definition keyed_backend :: "(item \<Rightarrow> pystr) \<Rightarrow> (json list \<Rightarrow> json list) \<Rightarrow> backend" where
  "keyed_backend f shuffle =
     (\<lambda>target_lang chunk.
        Parsed (JObj [(str ''translations'', JArr (shuffle (map (keyed_entry f) chunk)))]))"

text \<open>
  The translation that a list of entries gives for the id \<open>tid\<close>: that of the last
  entry with this id, as a later entry replaces an earlier one.
\<close>

fun translation_of :: "json list \<Rightarrow> pystr \<Rightarrow> json option" where
  "translation_of [] tid = None"
| "translation_of (e # es) tid =
     (case translation_of es tid of
        Some v \<Rightarrow> Some v
      | None \<Rightarrow>
          (case entry e of
             Inl err \<Rightarrow> None
           | Inr (k, v) \<Rightarrow> if k = JStr tid then Some v else None))"

fun is_string :: "json \<Rightarrow> bool" where
  "is_string (JStr s) = True"
| "is_string _ = False"

text \<open>
  An answer to a batch that is structurally invalid: the call raised (invalid JSON
  included), the value is not a dictionary with the key \<open>translations\<close>, the value under
  that key cannot be iterated, one of its entries is not a dictionary with an id and a
  translation, or the translation it gives for an item of the batch is not a string.
\<close>

definition structurally_invalid :: "response \<Rightarrow> item list \<Rightarrow> bool" where
  "structurally_invalid resp chunk =
     (case resp of
        Raised \<Rightarrow> True
      | Parsed (JObj d) \<Rightarrow>
          (case map_of d (str ''translations'') of
             None \<Rightarrow> True
           | Some translations \<Rightarrow>
               (case iterate translations of
                  Inl err \<Rightarrow> True
                | Inr es \<Rightarrow>
                    list_ex (\<lambda>e. isl (entry e)) es \<or>
                    list_ex
                      (\<lambda>it. case translation_of es (item_id it) of
                              None \<Rightarrow> False
                            | Some v \<Rightarrow> \<not> is_string v)
                      chunk))
      | Parsed _ \<Rightarrow> True)"

text \<open>An answer with a list of translations none of which carries the id \<open>tid\<close>.\<close>

definition omits_id :: "response \<Rightarrow> pystr \<Rightarrow> bool" where
  "omits_id resp tid =
     (case resp of
        Parsed (JObj d) \<Rightarrow>
          (case map_of d (str ''translations'') of
             None \<Rightarrow> False
           | Some translations \<Rightarrow>
               (case iterate translations of
                  Inl err \<Rightarrow> False
                | Inr es \<Rightarrow>
                    list_all (\<lambda>e. case entry e of Inl err \<Rightarrow> True | Inr (k, v) \<Rightarrow> k \<noteq> JStr tid) es))
      | _ \<Rightarrow> False)"

text \<open>The mapping \<open>str.upper\<close> on the letters a to z, for a backend that upper-cases.\<close>

definition ascii_upper :: "pystr \<Rightarrow> pystr" where
  "ascii_upper s = map (\<lambda>c. if 97 \<le> c \<and> c \<le> 122 then c - 32 else c) s"

text \<open>A backend that answers every batch with an empty list of translations.\<close>

definition silent_backend :: backend where
  "silent_backend = (\<lambda>target_lang chunk. Parsed (JObj [(str ''translations'', JArr [])]))"

definition uppercase_backend :: backend where
  "uppercase_backend = keyed_backend (\<lambda>it. ascii_upper (item_text it)) (\<lambda>es. es)"


section \<open>Presentations\<close>

text \<open>
  A loaded presentation is a list of slides, each the list of its shapes. A run of a
  paragraph and a cell of a table are objects of the document, each with a text that can be
  read and set; the shape tree holds them by reference. A \<open>slot\<close> is the identity of such
  an object, \<open>slot_text\<close> is the store that maps it to its current text, and \<open>assign\<close>
  is what the setter \<open>text_obj.text = ...\<close> of the object does with a text: it raises, or
  the object then holds a text (the library escapes some characters on the way). The
  setters belong to the library that loads the document; they are a part of the document
  here.

  The kinds of shape are the cases that \<open>collect_texts_from_shape\<close> tells apart: a group
  (\<open>MSO_SHAPE_TYPE.GROUP\<close>) with its child shapes, a table (\<open>MSO_SHAPE_TYPE.TABLE\<close>)
  with the cells of its rows, a shape with a text frame with the runs of its paragraphs,
  any other shape, and a shape of a type that the library does not know, on which
  \<open>shape.shape_type\<close> raises \<open>NotImplementedError\<close>.
\<close>

type_synonym slot = nat

datatype shape =
    Group "shape list"
  | Table "slot list list"
  | TextContainer "slot list list"
  | Other
  | Unrecognised

record presentation =
  slides :: "shape list list"
  slot_text :: "slot \<Rightarrow> pystr"
  assign :: "slot \<Rightarrow> pystr \<Rightarrow> py_error + pystr"

text \<open>
  \<open>if run.text.strip(): texts_to_translate.append(run.text); text_objects.append(run)\<close>,
  the same for a cell. The two lists are the accumulator.
\<close>

definition collect_slot :: "(slot \<Rightarrow> pystr) \<Rightarrow> slot \<Rightarrow> pystr list \<times> slot list \<Rightarrow> pystr list \<times> slot list" where
  "collect_slot txt s acc =
     (if strip (txt s) \<noteq> [] then (fst acc @ [txt s], snd acc @ [s]) else acc)"

text \<open>
  \<open>collect_texts_from_shape\<close>, with the loop over the child shapes of a group. A shape
  of an unknown type raises at the first test of its type, and the exception ends the
  loops around it. Reading the cells of a table stands in a \<open>try\<close> of its own; the cells
  of a loaded table are read without an exception.
\<close>

fun collect_texts_from_shape ::
    "(slot \<Rightarrow> pystr) \<Rightarrow> shape \<Rightarrow> pystr list \<times> slot list \<Rightarrow> py_error + pystr list \<times> slot list"
  and collect_texts_from_shapes ::
    "(slot \<Rightarrow> pystr) \<Rightarrow> shape list \<Rightarrow> pystr list \<times> slot list \<Rightarrow> py_error + pystr list \<times> slot list"
  where
  "collect_texts_from_shape txt (Group shapes) acc = collect_texts_from_shapes txt shapes acc"
| "collect_texts_from_shape txt (Table rows) acc =
     Inr (fold (\<lambda>row. fold (collect_slot txt) row) rows acc)"
| "collect_texts_from_shape txt (TextContainer paragraphs) acc =
     Inr (fold (\<lambda>paragraph. fold (collect_slot txt) paragraph) paragraphs acc)"
| "collect_texts_from_shape txt Other acc = Inr acc"
| "collect_texts_from_shape txt Unrecognised acc = Inl NotImplementedError"
| "collect_texts_from_shapes txt [] acc = Inr acc"
| "collect_texts_from_shapes txt (child_shape # shapes) acc =
     (case collect_texts_from_shape txt child_shape acc of
        Inl e \<Rightarrow> Inl e
      | Inr acc' \<Rightarrow> collect_texts_from_shapes txt shapes acc')"

text \<open>
  \<open>for slide in prs.slides: for shape in slide.shapes: collect_texts_from_shape(...)\<close>,
  the loop that both \<open>analyze_pptx\<close> and \<open>translate_pptx_async\<close> run.
\<close>

fun collect_texts_from_slides ::
  "(slot \<Rightarrow> pystr) \<Rightarrow> shape list list \<Rightarrow> pystr list \<times> slot list \<Rightarrow> py_error + pystr list \<times> slot list" where
  "collect_texts_from_slides txt [] acc = Inr acc"
| "collect_texts_from_slides txt (slide # rest) acc =
     (case collect_texts_from_shapes txt slide acc of
        Inl e \<Rightarrow> Inl e
      | Inr acc' \<Rightarrow> collect_texts_from_slides txt rest acc')"

text \<open>
  Written from the specification, for comparison with the code: the units as its section
  on the text collector describes them, depth first, in document order, a group
  through its children, a table through every cell of every row, a text container through
  every run of every paragraph, keeping the slots whose stripped text is not empty.
\<close>

fun spec_units :: "(slot \<Rightarrow> pystr) \<Rightarrow> shape \<Rightarrow> slot list" where
  "spec_units txt (Group shapes) = concat (map (\<lambda>child_shape. spec_units txt child_shape) shapes)"
| "spec_units txt (Table rows) = filter (\<lambda>s. strip (txt s) \<noteq> []) (concat rows)"
| "spec_units txt (TextContainer paragraphs) = filter (\<lambda>s. strip (txt s) \<noteq> []) (concat paragraphs)"
| "spec_units txt Other = []"
| "spec_units txt Unrecognised = []"

text \<open>A shape of an unknown type, at any depth of a shape tree.\<close>

fun has_unrecognised :: "shape \<Rightarrow> bool" where
  "has_unrecognised (Group shapes) = list_ex (\<lambda>child_shape. has_unrecognised child_shape) shapes"
| "has_unrecognised Unrecognised = True"
| "has_unrecognised _ = False"

text \<open>
  The files of the server. \<open>Presentation(path)\<close> raises when there is no file at the path
  and when the file is not a presentation; \<open>Damaged e\<close> is a file on which it raises
  \<open>e\<close>.
\<close>

datatype stored_file = Pptx presentation | Damaged py_error

type_synonym filesystem = "pystr \<rightharpoonup> stored_file"

definition Presentation :: "filesystem \<Rightarrow> pystr \<Rightarrow> py_error + presentation" where
  "Presentation fs path =
     (case fs path of
        None \<Rightarrow> Inl PackageNotFoundError
      | Some (Damaged e) \<Rightarrow> Inl e
      | Some (Pptx prs) \<Rightarrow> Inr prs)"


section \<open>analyze_pptx\<close>

text \<open>
  The dictionary that \<open>analyze_pptx\<close> returns; the key \<open>error\<close> is present after a
  failure only and holds \<open>str(e)\<close>, for which the exception itself stands.
\<close>

record analysis =
  pages :: nat
  text_count :: nat
  success :: bool
  error :: "py_error option"

text \<open>
  The body of the \<open>try\<close>: the presentation is loaded, its texts are collected, and the
  counts are returned. Loading and collecting can raise.
\<close>

definition analyze_pptx_try :: "filesystem \<Rightarrow> pystr \<Rightarrow> py_error + analysis" where
  "analyze_pptx_try fs file_path =
     (case Presentation fs file_path of
        Inl e \<Rightarrow> Inl e
      | Inr prs \<Rightarrow>
          (case collect_texts_from_slides (slot_text prs) (slides prs) ([], []) of
             Inl e \<Rightarrow> Inl e
           | Inr (texts_to_translate, text_objects) \<Rightarrow>
               Inr \<lparr>pages = length (slides prs), text_count = length texts_to_translate,
                    success = True, error = None\<rparr>))"

text \<open>
  \<open>analyze_pptx\<close>: what the call yields to its caller, a result or an exception. The
  \<open>except Exception\<close> branch turns whatever the body raises into the dictionary of a
  failure.
\<close>

definition analyze_pptx :: "filesystem \<Rightarrow> pystr \<Rightarrow> py_error + analysis" where
  "analyze_pptx fs file_path =
     (case analyze_pptx_try fs file_path of
        Inl e \<Rightarrow> Inr \<lparr>pages = 0, text_count = 0, success = False, error = Some e\<rparr>
      | Inr result \<Rightarrow> Inr result)"


section \<open>translate_pptx_async\<close>

text \<open>
  The collection pass of \<open>translate_pptx_async\<close>: the texts to translate and the
  objects that hold them, or the exception that the traversal raises.
\<close>

definition collect :: "presentation \<Rightarrow> py_error + pystr list \<times> slot list" where
  "collect prs = collect_texts_from_slides (slot_text prs) (slides prs) ([], [])"

text \<open>
  For one pair of the \<open>zip\<close>: \<open>if translated_text.strip():\<close> the text is assigned in a
  \<open>try\<close>, and \<open>applied_count\<close> goes up unless the assignment raises.
\<close>

definition apply_translation ::
  "(slot \<Rightarrow> pystr \<Rightarrow> py_error + pystr) \<Rightarrow> slot \<times> pystr \<Rightarrow> (slot \<Rightarrow> pystr) \<times> nat \<Rightarrow>
   (slot \<Rightarrow> pystr) \<times> nat" where
  "apply_translation setter p st =
     (if strip (snd p) \<noteq> [] then
        (case setter (fst p) (snd p) of
           Inl e \<Rightarrow> st
         | Inr stored \<Rightarrow> ((fst st)(fst p := stored), snd st + 1))
      else st)"

text \<open>
  A value of a returned tuple: an integer, or a dictionary (of token metrics).
\<close>

datatype pyval = PyInt nat | PyDict "(pystr \<times> nat) list"

text \<open>
  \<open>translate_pptx_async\<close> returns the tuple \<open>(len(prs.slides), applied_count)\<close>, as the
  list of its components, and saves the presentation at the output path; it raises what
  \<open>Presentation\<close> and the collection pass raise, before anything is saved.
\<close>

definition translate_pptx_async ::
  "backend \<Rightarrow> filesystem \<Rightarrow> pystr \<Rightarrow> pystr \<Rightarrow> pystr \<Rightarrow> (py_error + pyval list) \<times> filesystem" where
  "translate_pptx_async be fs input_path output_path target_lang =
     (case Presentation fs input_path of
        Inl e \<Rightarrow> (Inl e, fs)
      | Inr prs \<Rightarrow>
          (case collect prs of
             Inl e \<Rightarrow> (Inl e, fs)
           | Inr (texts_to_translate, text_objects) \<Rightarrow>
               if texts_to_translate = [] then
                 (Inr [PyInt (length (slides prs)), PyInt 0], fs(output_path \<mapsto> Pptx prs))
               else
                 let translated_texts =
                       translate_texts_openai_async be texts_to_translate target_lang;
                     (txt, applied_count) =
                       fold (apply_translation (assign prs)) (zip text_objects translated_texts)
                         (slot_text prs, 0)
                 in (Inr [PyInt (length (slides prs)), PyInt applied_count],
                     fs(output_path \<mapsto> Pptx (prs\<lparr>slot_text := txt\<rparr>)))))"


section \<open>The job queue\<close>

datatype job_status = Queued | Processing | Completed | Failed

record translation_job =
  job_id :: pystr
  job_filename :: pystr
  job_target_lang :: pystr
  status :: job_status
  job_pages :: "nat option"
  job_text_count :: "nat option"
  error_message :: "py_error option"
  created_at :: nat
  completed_at :: "nat option"

record translation_request =
  req_job_id :: pystr
  req_file_path :: pystr
  req_output_path :: pystr
  req_filename :: pystr
  req_target_lang :: pystr
  ip_address :: pystr
  file_size :: nat
  req_pages :: nat
  req_text_count :: nat

text \<open>
  The globals of the service: the queue, the dictionary \<open>active_jobs\<close> (in insertion
  order), the counter \<open>processing_count\<close>, and the files. The loop
  \<open>process_translation_queue\<close> is one coroutine; \<open>awaiting\<close> is the request whose
  \<open>await translate_pptx_async(...)\<close> is pending, if the loop stands there.
\<close>

record server =
  translation_queue :: "translation_request list"
  active_jobs :: "(pystr \<times> translation_job) list"
  processing_count :: int
  files :: filesystem
  awaiting :: "translation_request option"

definition initial_server :: "filesystem \<Rightarrow> server" where
  "initial_server fs =
     \<lparr>translation_queue = [], active_jobs = [], processing_count = 0, files = fs,
      awaiting = None\<rparr>"

text \<open>
  \<open>upload_file\<close> once the size, the file type and the language have been accepted: the
  upload is saved, analysed, and either rejected (the saved file removed, also should the
  analysis raise) or entered in \<open>active_jobs\<close> as a queued job, with its request at the
  tail of the queue.
\<close>

record upload =
  up_job_id :: pystr
  up_filename :: pystr
  up_target_lang :: pystr
  up_client_ip :: pystr
  up_input_path :: pystr
  up_output_path :: pystr
  up_content :: stored_file
  up_file_size :: nat

definition upload_file :: "upload \<Rightarrow> nat \<Rightarrow> server \<Rightarrow> server" where
  "upload_file u now s =
     (let fs = (files s)(up_input_path u \<mapsto> up_content u)
      in case analyze_pptx fs (up_input_path u) of
           Inl e \<Rightarrow> s\<lparr>files := fs(up_input_path u := None)\<rparr>
         | Inr analysis \<Rightarrow>
             if \<not> success analysis then s\<lparr>files := fs(up_input_path u := None)\<rparr>
             else
               s\<lparr>files := fs,
                 active_jobs :=
                   AList.update (up_job_id u)
                     \<lparr>job_id = up_job_id u, job_filename = up_filename u,
                      job_target_lang = up_target_lang u, status = Queued,
                      job_pages = Some (pages analysis),
                      job_text_count = Some (text_count analysis),
                      error_message = None, created_at = now, completed_at = None\<rparr>
                     (active_jobs s),
                 translation_queue :=
                   translation_queue s @
                     [\<lparr>req_job_id = up_job_id u, req_file_path = up_input_path u,
                       req_output_path = up_output_path u, req_filename = up_filename u,
                       req_target_lang = up_target_lang u, ip_address = up_client_ip u,
                       file_size = up_file_size u, req_pages = pages analysis,
                       req_text_count = text_count analysis\<rparr>]\<rparr>)"

text \<open>
  One turn of the loop from \<open>translation_queue.get()\<close> to the call of
  \<open>translate_pptx_async\<close>: with the counter at the bound the request goes back to the
  tail of the queue; otherwise the counter goes up and the job, if it is in
  \<open>active_jobs\<close>, becomes \<open>processing\<close>. On an empty queue \<open>get\<close> waits.
\<close>

definition process_translation_queue_get :: "int \<Rightarrow> server \<Rightarrow> server" where
  "process_translation_queue_get max_concurrent s =
     (case translation_queue s of
        [] \<Rightarrow> s
      | translation_request # q \<Rightarrow>
          if processing_count s \<ge> max_concurrent then
            s\<lparr>translation_queue := q @ [translation_request]\<rparr>
          else
            s\<lparr>translation_queue := q,
              processing_count := processing_count s + 1,
              active_jobs :=
                AList.map_entry (req_job_id translation_request) (\<lambda>j. j\<lparr>status := Processing\<rparr>)
                  (active_jobs s),
              awaiting := Some translation_request\<rparr>)"

text \<open>
  \<open>pages, text_count, token_metrics = ...\<close>: unpacking a tuple into three names raises
  \<open>ValueError\<close> unless the tuple has three components.
\<close>

fun unpack3 :: "'a list \<Rightarrow> py_error + ('a \<times> 'a \<times> 'a)" where
  "unpack3 [a, b, c] = Inr (a, b, c)"
| "unpack3 _ = Inl ValueError"

text \<open>
  What the \<open>try\<close> block of the loop comes to (the calls of the logger are taken not to
  raise): the translation runs, its result is
  unpacked, and \<open>token_metrics.get\<close> is called for the metrics record, which only a
  dictionary has.
\<close>

definition process_translation_queue_try ::
  "backend \<Rightarrow> filesystem \<Rightarrow> translation_request \<Rightarrow> (py_error + unit) \<times> filesystem" where
  "process_translation_queue_try be fs r =
     (case translate_pptx_async be fs (req_file_path r) (req_output_path r) (req_target_lang r) of
        (Inl e, fs') \<Rightarrow> (Inl e, fs')
      | (Inr result, fs') \<Rightarrow>
          (case unpack3 result of
             Inl e \<Rightarrow> (Inl e, fs')
           | Inr (n_pages, n_texts, PyDict token_metrics) \<Rightarrow> (Inr (), fs')
           | Inr (n_pages, n_texts, PyInt n) \<Rightarrow> (Inl AttributeError, fs')))"

text \<open>
  The rest of the turn, when the translation returns or raises: the job becomes
  \<open>completed\<close>, or \<open>failed\<close> with the error (and the input file is removed); in both
  cases the counter goes down.
\<close>

definition process_translation_queue_end :: "backend \<Rightarrow> nat \<Rightarrow> server \<Rightarrow> server" where
  "process_translation_queue_end be now s =
     (case awaiting s of
        None \<Rightarrow> s
      | Some r \<Rightarrow>
          (case process_translation_queue_try be (files s) r of
             (Inr u, fs) \<Rightarrow>
               s\<lparr>files := fs,
                 active_jobs :=
                   AList.map_entry (req_job_id r)
                     (\<lambda>j. j\<lparr>status := Completed, completed_at := Some now\<rparr>) (active_jobs s),
                 processing_count := processing_count s - 1,
                 awaiting := None\<rparr>
           | (Inl e, fs) \<Rightarrow>
               s\<lparr>files := fs(req_file_path r := None),
                 active_jobs :=
                   AList.map_entry (req_job_id r)
                     (\<lambda>j. j\<lparr>status := Failed, error_message := Some e, completed_at := Some now\<rparr>)
                     (active_jobs s),
                 processing_count := processing_count s - 1,
                 awaiting := None\<rparr>))"

text \<open>
  \<open>cleanup_files\<close>, which a download of a completed job starts: the job's files are
  removed and the job leaves \<open>active_jobs\<close>.
\<close>

definition cleanup_files :: "pystr \<Rightarrow> pystr list \<Rightarrow> server \<Rightarrow> server" where
  "cleanup_files jid paths s =
     s\<lparr>files := (\<lambda>p. if p \<in> set paths then None else files s p),
       active_jobs := AList.delete jid (active_jobs s)\<rparr>"

text \<open>\<open>get_queue_status\<close>: the jobs that are \<open>processing\<close>.\<close>

definition processing_jobs :: "server \<Rightarrow> translation_job list" where
  "processing_jobs s = filter (\<lambda>job. status job = Processing) (map snd (active_jobs s))"

definition job_status_of :: "server \<Rightarrow> pystr \<Rightarrow> job_status option" where
  "job_status_of s jid = map_option status (map_of (active_jobs s) jid)"

text \<open>
  The steps of the service with the bound \<open>max_concurrent\<close>: an upload, a turn of the loop
  up to the translation, the end of a translation, a cleanup after a download. The loop is
  the only writer of the counter and stands either before \<open>get\<close> or at the translation.
\<close>

inductive step :: "int \<Rightarrow> backend \<Rightarrow> server \<Rightarrow> server \<Rightarrow> bool"
  for max_concurrent :: int and be :: backend where
  step_upload: "step max_concurrent be s (upload_file u now s)"
| step_admit: "awaiting s = None \<Longrightarrow> step max_concurrent be s (process_translation_queue_get max_concurrent s)"
| step_finish: "awaiting s \<noteq> None \<Longrightarrow> step max_concurrent be s (process_translation_queue_end be now s)"
| step_cleanup:
    "job_status_of s jid = Some Completed \<Longrightarrow> step max_concurrent be s (cleanup_files jid paths s)"

inductive reachable :: "int \<Rightarrow> backend \<Rightarrow> server \<Rightarrow> bool"
  for max_concurrent :: int and be :: backend where
  reachable_initial: "reachable max_concurrent be (initial_server fs)"
| reachable_step:
    "reachable max_concurrent be s \<Longrightarrow> step max_concurrent be s s' \<Longrightarrow> reachable max_concurrent be s'"


section \<open>The invariant of the loop\<close>

text \<open>
  Between two steps the counter is 1 exactly while a translation is pending, which the
  bound must have allowed, and only the job of the pending request can be \<open>processing\<close>.
\<close>

definition loop_invariant :: "int \<Rightarrow> server \<Rightarrow> bool" where
  "loop_invariant max_concurrent s =
     (distinct (map fst (active_jobs s)) \<and>
      (case awaiting s of
         None \<Rightarrow>
           processing_count s = 0 \<and>
           list_all (\<lambda>(k, j). status j \<noteq> Processing) (active_jobs s)
       | Some r \<Rightarrow>
           processing_count s = 1 \<and> 1 \<le> max_concurrent \<and>
           list_all (\<lambda>(k, j). status j \<noteq> Processing \<or> k = req_job_id r) (active_jobs s)))"


section \<open>A deck of three slides\<close>

text \<open>
  Three slides with five units: a text box and a group holding a text box; a table with
  two filled cells and an empty one; a text box with a run of text and a run that is a
  single space, beside a picture. The slots 0 to 4 are the units, in traversal order. The
  texts are plain letters, which the setters store as they are.
\<close>

definition demo_deck :: presentation where
  "demo_deck =
     \<lparr>slides =
        [[TextContainer [[0]], Group [TextContainer [[1]]]],
         [Table [[2, 3], [5]]],
         [TextContainer [[4, 6]], Other]],
      slot_text =
        (\<lambda>s. if s = 0 then str ''hello'' else if s = 1 then str ''world''
             else if s = 2 then str ''alpha'' else if s = 3 then str ''beta''
             else if s = 4 then str ''gamma'' else if s = 6 then str '' '' else []),
      assign = (\<lambda>s t. Inr t)\<rparr>"

definition demo_upload :: upload where
  "demo_upload =
     \<lparr>up_job_id = str ''job-1'', up_filename = str ''deck.pptx'', up_target_lang = str ''en'',
      up_client_ip = str ''10.0.0.1'', up_input_path = str ''/tmp/a/input_job-1.pptx'',
      up_output_path = str ''/tmp/a/output_job-1.pptx'', up_content = Pptx demo_deck,
      up_file_size = 40000\<rparr>"

definition second_upload :: upload where
  "second_upload =
     \<lparr>up_job_id = str ''job-2'', up_filename = str ''deck.pptx'', up_target_lang = str ''ja'',
      up_client_ip = str ''10.0.0.2'', up_input_path = str ''/tmp/b/input_job-2.pptx'',
      up_output_path = str ''/tmp/b/output_job-2.pptx'', up_content = Pptx demo_deck,
      up_file_size = 40000\<rparr>"

text \<open>The job is uploaded, the loop takes it, the translation ends.\<close>

definition demo_queued :: server where
  "demo_queued = upload_file demo_upload 0 (initial_server Map.empty)"

definition demo_processing :: server where
  "demo_processing = process_translation_queue_get 1 demo_queued"

definition demo_finished :: server where
  "demo_finished = process_translation_queue_end uppercase_backend 7 demo_processing"

text \<open>Two uploads with the bound 1, and one turn of the loop.\<close>

definition demo_two_jobs :: server where
  "demo_two_jobs = process_translation_queue_get 1 (upload_file second_upload 1 demo_queued)"

text \<open>The texts of the units of the file at a path, in traversal order.\<close>

definition unit_texts_at :: "server \<Rightarrow> pystr \<Rightarrow> pystr list option" where
  "unit_texts_at s path =
     (case files s path of
        Some (Pptx prs) \<Rightarrow>
          (case collect prs of
             Inl e \<Rightarrow> None
           | Inr (texts, objects) \<Rightarrow> Some texts)
      | _ \<Rightarrow> None)"

text \<open>
  A deck that loads and cannot be traversed: a text box, then a group that holds a text
  box and a shape of an unknown type.
\<close>

definition odd_deck :: presentation where
  "odd_deck =
     \<lparr>slides = [[TextContainer [[0]], Group [TextContainer [[1]], Unrecognised]]],
      slot_text = (\<lambda>s. if s = 0 then str ''title'' else if s = 1 then str ''note'' else []),
      assign = (\<lambda>s t. Inr t)\<rparr>"

text \<open>A deck of one slide whose only run is \<open>" a "\<close>.\<close>

definition spaced_deck :: presentation where
  "spaced_deck =
     \<lparr>slides = [[TextContainer [[0]]]],
      slot_text = (\<lambda>s. if s = 0 then str '' a '' else []),
      assign = (\<lambda>s t. Inr t)\<rparr>"


section \<open>Floating point numbers\<close>

text \<open>
  A Python \<open>float\<close> is an IEEE 754 binary64 number. A finite one is a rational number and is
  modelled by its exact value; \<open>float64 x\<close> is the binary64 number nearest to the real
  \<open>x\<close>, a tie going to the even significand, which is the result of every correctly
  rounded operation. Infinities are not modelled: \<open>float64\<close> is the rounding as long as
  its result is below \<open>2 ^ 1024\<close> in magnitude, and the operations below say where that
  bound can be passed.
\<close>

fun bit_length :: "nat \<Rightarrow> nat" where
  "bit_length n = (if n = 0 then 0 else Suc (bit_length (n div 2)))"

declare bit_length.simps [simp del]

definition pow2 :: "int \<Rightarrow> rat" where
  "pow2 e = (if 0 \<le> e then 2 ^ nat e else 1 / 2 ^ nat (- e))"

text \<open>For positive \<open>x\<close>, the exponent \<open>e\<close> with \<open>pow2 e \<le> x < pow2 (e + 1)\<close>.\<close>

definition floor_log2 :: "rat \<Rightarrow> int" where
  "floor_log2 x =
     (if 1 \<le> x then int (bit_length (nat \<lfloor>x\<rfloor>)) - 1
      else
        let k = int (bit_length (nat \<lfloor>1 / x\<rfloor>)) - 1
        in if x * pow2 k = 1 then - k else - k - 1)"

definition round_half_even :: "rat \<Rightarrow> int" where
  "round_half_even x =
     (let n = \<lfloor>x\<rfloor>; r = x - of_int n
      in if r < 1 / 2 then n else if 1 / 2 < r then n + 1 else if even n then n else n + 1)"

text \<open>
  The spacing of the binary64 numbers around \<open>x\<close> is \<open>pow2 (e - 52)\<close> for the exponent
  \<open>e\<close> of \<open>x\<close>, and \<open>pow2 (- 1074)\<close> below the normal range.
\<close>

definition float64 :: "rat \<Rightarrow> rat" where
  "float64 x =
     (if x = 0 then 0
      else
        let e = max (floor_log2 \<bar>x\<bar>) (- 1022);
            ulp = pow2 (e - 52)
        in of_int (round_half_even (x / ulp)) * ulp)"

text \<open>
  \<open>a / b\<close> on integers: the quotient, correctly rounded; \<open>OverflowError\<close> when it is too
  large for a float.
\<close>

definition true_div :: "int \<Rightarrow> int \<Rightarrow> py_error + rat" where
  "true_div a b =
     (if b = 0 then Inl ZeroDivisionError
      else
        let q = float64 (of_int a / of_int b)
        in if 2 ^ 1024 \<le> \<bar>q\<bar> then Inl OverflowError else Inr q)"

text \<open>
  \<open>round(x, 6)\<close>: the decimal with six places nearest to \<open>x\<close> (a tie going to the even
  last digit), correctly rounded to a float.
\<close>

definition round6 :: "rat \<Rightarrow> rat" where
  "round6 x = float64 (of_int (round_half_even (x * 1000000)) / 1000000)"


section \<open>OpenAIPricingCalculator\<close>

text \<open>
  A model name is a string of the characters with the codes 0 to 255. On these
  \<open>str.lower\<close> is the map below (the letters A to Z and the capital letters of Latin-1),
  and \<open>str.strip\<close> removes the whitespace among them; the case mapping of all of Unicode
  is not modelled.
\<close>

definition lower_char :: "char \<Rightarrow> char" where
  "lower_char c =
     (let n = of_char c :: nat
      in if (65 \<le> n \<and> n \<le> 90) \<or> (192 \<le> n \<and> n \<le> 214) \<or> (216 \<le> n \<and> n \<le> 222)
         then char_of (n + 32) else c)"

definition lower :: "string \<Rightarrow> string" where
  "lower s = map lower_char s"

definition strip_chars :: "string \<Rightarrow> string" where
  "strip_chars s =
     rev (dropWhile (\<lambda>c. isspace (of_char c)) (rev (dropWhile (\<lambda>c. isspace (of_char c)) s)))"

text \<open>\<open>s.startswith(p)\<close> and \<open>p in s\<close>.\<close>

fun startswith :: "string \<Rightarrow> string \<Rightarrow> bool" where
  "startswith s [] = True"
| "startswith [] (p # ps) = False"
| "startswith (c # s) (p # ps) = (c = p \<and> startswith s ps)"

fun is_substring :: "string \<Rightarrow> string \<Rightarrow> bool" where
  "is_substring p [] = (p = [])"
| "is_substring p (c # s) = (startswith (c # s) p \<or> is_substring p s)"

text \<open>The table \<open>PRICING\<close>: US dollars for 1000 tokens, each price a float literal.\<close>

record pricing =
  price_input :: rat
  price_output :: rat

definition PRICING :: "(string \<times> pricing) list" where
  "PRICING =
     [
      (''gpt-5'',
       \<lparr>price_input = float64 (125 / 100000), price_output = float64 (1 / 100)\<rparr>),
      (''gpt-5-mini'',
       \<lparr>price_input = float64 (25 / 100000), price_output = float64 (2 / 1000)\<rparr>),
      (''gpt-5-nano'',
       \<lparr>price_input = float64 (5 / 100000), price_output = float64 (4 / 10000)\<rparr>),
      (''gpt-5-chat-latest'',
       \<lparr>price_input = float64 (125 / 100000), price_output = float64 (1 / 100)\<rparr>),
      (''gpt-5-codex'',
       \<lparr>price_input = float64 (125 / 100000), price_output = float64 (1 / 100)\<rparr>),
      (''gpt-5-pro'',
       \<lparr>price_input = float64 (15 / 1000), price_output = float64 (12 / 100)\<rparr>),
      (''gpt-4.1'',
       \<lparr>price_input = float64 (2 / 1000), price_output = float64 (8 / 1000)\<rparr>),
      (''gpt-4.1-mini'',
       \<lparr>price_input = float64 (4 / 10000), price_output = float64 (16 / 10000)\<rparr>),
      (''gpt-4.1-nano'',
       \<lparr>price_input = float64 (1 / 10000), price_output = float64 (4 / 10000)\<rparr>),
      (''o1'',
       \<lparr>price_input = float64 (15 / 1000), price_output = float64 (6 / 100)\<rparr>),
      (''o1-pro'',
       \<lparr>price_input = float64 (15 / 100), price_output = float64 (6 / 10)\<rparr>),
      (''o3'',
       \<lparr>price_input = float64 (2 / 1000), price_output = float64 (8 / 1000)\<rparr>),
      (''o3-pro'',
       \<lparr>price_input = float64 (2 / 100), price_output = float64 (8 / 100)\<rparr>),
      (''o3-deep-research'',
       \<lparr>price_input = float64 (1 / 100), price_output = float64 (4 / 100)\<rparr>),
      (''o4-mini'',
       \<lparr>price_input = float64 (11 / 10000), price_output = float64 (44 / 10000)\<rparr>),
      (''o4-mini-deep-research'',
       \<lparr>price_input = float64 (2 / 1000), price_output = float64 (8 / 1000)\<rparr>),
      (''o3-mini'',
       \<lparr>price_input = float64 (11 / 10000), price_output = float64 (44 / 10000)\<rparr>),
      (''o1-mini'',
       \<lparr>price_input = float64 (11 / 10000), price_output = float64 (44 / 10000)\<rparr>),
      (''gpt-4o'',
       \<lparr>price_input = float64 (25 / 10000), price_output = float64 (1 / 100)\<rparr>),
      (''gpt-4o-mini'',
       \<lparr>price_input = float64 (15 / 100000), price_output = float64 (6 / 10000)\<rparr>),
      (''gpt-4o-2024-05-13'',
       \<lparr>price_input = float64 (5 / 1000), price_output = float64 (15 / 1000)\<rparr>),
      (''gpt-realtime'',
       \<lparr>price_input = float64 (4 / 1000), price_output = float64 (16 / 1000)\<rparr>),
      (''gpt-realtime-mini'',
       \<lparr>price_input = float64 (6 / 10000), price_output = float64 (24 / 10000)\<rparr>),
      (''gpt-4'',
       \<lparr>price_input = float64 (3 / 100), price_output = float64 (6 / 100)\<rparr>),
      (''gpt-4-32k'',
       \<lparr>price_input = float64 (6 / 100), price_output = float64 (12 / 100)\<rparr>),
      (''gpt-4-turbo'',
       \<lparr>price_input = float64 (1 / 100), price_output = float64 (3 / 100)\<rparr>),
      (''gpt-3.5-turbo'',
       \<lparr>price_input = float64 (5 / 10000), price_output = float64 (15 / 10000)\<rparr>),
      (''gpt-3.5-turbo-16k'',
       \<lparr>price_input = float64 (3 / 1000), price_output = float64 (4 / 1000)\<rparr>),
      (''default'',
       \<lparr>price_input = float64 (4 / 10000), price_output = float64 (16 / 10000)\<rparr>)
     ]"

text \<open>\<open>_normalize_model_name\<close>, branch by branch.\<close>

definition normalize_model_name :: "string \<Rightarrow> string" where
  "normalize_model_name model_name =
     (let model_lower = strip_chars (lower model_name)
      in
        if model_lower \<in> set (map fst PRICING) then model_lower
        else if is_substring ''gpt-5-pro'' model_lower then ''gpt-5-pro''
        else if is_substring ''gpt-5-nano'' model_lower then ''gpt-5-nano''
        else if is_substring ''gpt-5-mini'' model_lower then ''gpt-5-mini''
        else if is_substring ''gpt-5-chat-latest'' model_lower then ''gpt-5-chat-latest''
        else if is_substring ''gpt-5-codex'' model_lower then ''gpt-5-codex''
        else if is_substring ''gpt-5'' model_lower then ''gpt-5''
        else if is_substring ''gpt-4.1-nano'' model_lower then ''gpt-4.1-nano''
        else if is_substring ''gpt-4.1-mini'' model_lower then ''gpt-4.1-mini''
        else if is_substring ''gpt-4.1'' model_lower then ''gpt-4.1''
        else if is_substring ''o4-mini-deep-research'' model_lower then ''o4-mini-deep-research''
        else if is_substring ''o4-mini'' model_lower then ''o4-mini''
        else if is_substring ''o3-deep-research'' model_lower then ''o3-deep-research''
        else if is_substring ''o3-pro'' model_lower then ''o3-pro''
        else if is_substring ''o3-mini'' model_lower then ''o3-mini''
        else if is_substring ''o3'' model_lower then ''o3''
        else if is_substring ''o1-pro'' model_lower then ''o1-pro''
        else if is_substring ''o1-mini'' model_lower then ''o1-mini''
        else if is_substring ''o1'' model_lower then ''o1''
        else if is_substring ''gpt-4o-mini'' model_lower then ''gpt-4o-mini''
        else if is_substring ''gpt-4o-2024-05-13'' model_lower then ''gpt-4o-2024-05-13''
        else if is_substring ''gpt-4o'' model_lower then ''gpt-4o''
        else if is_substring ''gpt-realtime-mini'' model_lower then ''gpt-realtime-mini''
        else if is_substring ''gpt-realtime'' model_lower then ''gpt-realtime''
        else if is_substring ''gpt-4-turbo'' model_lower then ''gpt-4-turbo''
        else if is_substring ''gpt-4-32k'' model_lower then ''gpt-4-32k''
        else if is_substring ''gpt-4'' model_lower then ''gpt-4''
        else if is_substring ''gpt-3.5-turbo-16k'' model_lower then ''gpt-3.5-turbo-16k''
        else if is_substring ''gpt-3.5-turbo'' model_lower then ''gpt-3.5-turbo''
        else ''default'')"

text \<open>
  The bill that \<open>calculate_cost\<close> returns, and the function: the price of the normalized
  name (that of \<open>default\<close> when the table has no such key), the two quotients by 1000, the
  two products, their sum, and the three roundings. The products and the sum of two floats
  are the exact results rounded; with quotients below \<open>2 ^ 1024\<close> and prices that add up
  to less than 1 they stay finite.
\<close>

record cost =
  input_cost :: rat
  output_cost :: rat
  total_cost :: rat

definition pricing_of :: "string \<Rightarrow> py_error + pricing" where
  "pricing_of normalized_model =
     (case map_of PRICING ''default'' of
        None \<Rightarrow> Inl KeyError
      | Some default_pricing \<Rightarrow>
          (case map_of PRICING normalized_model of
             None \<Rightarrow> Inr default_pricing
           | Some p \<Rightarrow> Inr p))"

definition calculate_cost :: "string \<Rightarrow> int \<Rightarrow> int \<Rightarrow> py_error + cost" where
  "calculate_cost model_name input_tokens output_tokens =
     (case pricing_of (normalize_model_name model_name) of
        Inl e \<Rightarrow> Inl e
      | Inr p \<Rightarrow>
          (case true_div input_tokens 1000 of
             Inl e \<Rightarrow> Inl e
           | Inr qi \<Rightarrow>
               (case true_div output_tokens 1000 of
                  Inl e \<Rightarrow> Inl e
                | Inr qo \<Rightarrow>
                    let input_cost = float64 (qi * price_input p);
                        output_cost = float64 (qo * price_output p);
                        total_cost = float64 (input_cost + output_cost)
                    in Inr \<lparr>input_cost = round6 input_cost, output_cost = round6 output_cost,
                            total_cost = round6 total_cost\<rparr>)))"

text \<open>
  The patterns of the substring branches, in the order of the branches, and what it is for
  a list of patterns to be in descending specificity: no pattern is a substring of one
  that comes after it, so a name that extends another one is tried before it.
\<close>

definition PATTERNS :: "string list" where
  "PATTERNS =
     [''gpt-5-pro'', ''gpt-5-nano'', ''gpt-5-mini'', ''gpt-5-chat-latest'',
      ''gpt-5-codex'', ''gpt-5'', ''gpt-4.1-nano'', ''gpt-4.1-mini'',
      ''gpt-4.1'', ''o4-mini-deep-research'', ''o4-mini'', ''o3-deep-research'',
      ''o3-pro'', ''o3-mini'', ''o3'', ''o1-pro'',
      ''o1-mini'', ''o1'', ''gpt-4o-mini'', ''gpt-4o-2024-05-13'',
      ''gpt-4o'', ''gpt-realtime-mini'', ''gpt-realtime'', ''gpt-4-turbo'',
      ''gpt-4-32k'', ''gpt-4'', ''gpt-3.5-turbo-16k'', ''gpt-3.5-turbo'']"

fun descending_specificity :: "string list \<Rightarrow> bool" where
  "descending_specificity [] = True"
| "descending_specificity (p # ps) =
     (list_all (\<lambda>q. \<not> is_substring p q) ps \<and> descending_specificity ps)"


section \<open>Properties of the batch translation\<close>

subsection \<open>Stripping, batches, the last loop\<close>

lemma all_dropWhile_iff:
  "(\<forall>x\<in>set (dropWhile P xs). P x) \<longleftrightarrow> (\<forall>x\<in>set xs. P x)"
proof
  assume all: "\<forall>x\<in>set (dropWhile P xs). P x"
  have "dropWhile P xs = []"
  proof (rule ccontr)
    assume ne: "dropWhile P xs \<noteq> []"
    then have "\<not> P (hd (dropWhile P xs))" by (rule hd_dropWhile)
    moreover from ne have "hd (dropWhile P xs) \<in> set (dropWhile P xs)" by (rule hd_in_set)
    ultimately show False using all by blast
  qed
  then show "\<forall>x\<in>set xs. P x" by (simp only: dropWhile_eq_Nil_conv)
next
  assume "\<forall>x\<in>set xs. P x"
  then show "\<forall>x\<in>set (dropWhile P xs). P x" by (blast dest: set_dropWhileD)
qed

lemma strip_Nil_iff: "strip s = [] \<longleftrightarrow> (\<forall>c\<in>set s. isspace c)"
  by (simp add: strip_def all_dropWhile_iff)

text \<open>
  The loop over a chunk, when it raises nothing, resolves each item on its own: the
  translation found under the id of the item unless that is missing or blank.
\<close>

lemma chunk_translations_all2:
  "chunk_translations m c = Inr r \<Longrightarrow>
   list_all2 (\<lambda>it out. out = (case m (JStr (item_id it)) of Some (JStr t) \<Rightarrow> if strip t = [] then item_text it else t | _ \<Rightarrow> item_text it)) c r"
proof (induction c arbitrary: r)
  case Nil then show ?case by simp
next
  case (Cons it its)
  then show ?case
    by (auto split: option.splits json.splits sum.splits if_splits simp: strip_Nil_iff)
qed

lemma concat_batches: "concat (batches xs) = xs"
proof (induction xs rule: batches.induct)
  case (1 xs)
  show ?case
  proof (cases "xs = []")
    case True then show ?thesis by (simp add: batches.simps)
  next
    case False
    with 1 show ?thesis by (subst batches.simps) simp
  qed
qed

text \<open>
  The last loop leaves the length alone, writes the \<open>k\<close>-th translation at the
  \<open>k\<close>-th index, and nothing anywhere else.
\<close>

lemma restore_order_length:
  "length (restore_order texts tr i idxs final) = length final"
  by (induction idxs arbitrary: i final) auto

lemma restore_order_other:
  "j \<notin> set idxs \<Longrightarrow> restore_order texts tr i idxs final ! j = final ! j"
  by (induction idxs arbitrary: i final) auto

lemma restore_order_nth:
  "distinct idxs \<Longrightarrow> \<forall>x\<in>set idxs. x < length final \<Longrightarrow> k < length idxs \<Longrightarrow>
   restore_order texts tr i idxs final ! (idxs ! k) =
     (if i + k < length tr then tr ! (i + k) else texts ! (idxs ! k))"
proof (induction idxs arbitrary: i final k)
  case Nil then show ?case by simp
next
  case (Cons a idxs)
  show ?case
  proof (cases k)
    case 0
    with Cons.prems show ?thesis by (simp add: restore_order_other)
  next
    case (Suc k')
    with Cons.prems Cons.IH[of "final[a := (if i < length tr then tr ! i else texts ! a)]" k' "Suc i"]
    show ?thesis by simp
  qed
qed

subsection \<open>Ids and indices\<close>

lemma str_of_nat_inverse: "foldl (\<lambda>a d. 10 * a + (d - 48)) 0 (str_of_nat n) = n"
proof (induction n rule: str_of_nat.induct)
  case (1 n)
  show ?case
  proof (cases "n < 10")
    case True then show ?thesis by (subst str_of_nat.simps) simp
  next
    case False
    with 1 show ?thesis by (subst str_of_nat.simps) simp
  qed
qed

lemma str_of_nat_inj: "str_of_nat n = str_of_nat m \<Longrightarrow> n = m"
  by (metis str_of_nat_inverse)

lemma text_id_inj: "text_id i = text_id j \<longleftrightarrow> i = j"
  by (auto simp: text_id_def dest: str_of_nat_inj)

lemma text_indices_set:
  "set (text_indices texts) = {i. i < length texts \<and> strip (texts ! i) \<noteq> []}"
  by (auto simp: text_indices_def in_set_enumerate_eq image_iff)

lemma text_indices_distinct: "distinct (text_indices texts)"
  unfolding text_indices_def by (rule distinct_map_filter) simp

lemma non_empty_texts_eq:
  "non_empty_texts texts =
     map (\<lambda>i. \<lparr>item_id = text_id i, item_text = strip (texts ! i)\<rparr>) (text_indices texts)"
  unfolding non_empty_texts_def text_indices_def map_map
  by (rule map_cong) (auto simp: in_set_enumerate_eq)

text \<open>
  A relation between an item and its result that holds batch by batch holds for the
  concatenation of the batches against the concatenation of their results.
\<close>

lemma batches_all2:
  "(\<And>c. c \<in> set (batches xs) \<Longrightarrow> list_all2 P c (g c)) \<Longrightarrow>
   list_all2 P xs (concat (map g (batches xs)))"
proof (induction xs rule: batches.induct)
  case (1 xs)
  show ?case
  proof (cases "xs = []")
    case True then show ?thesis by (simp add: batches.simps)
  next
    case False
    then have b: "batches xs = take batch_size xs # batches (drop batch_size xs)"
      by (subst batches.simps) simp
    have h: "list_all2 P (take batch_size xs) (g (take batch_size xs))"
      using "1.prems" b by simp
    have t: "list_all2 P (drop batch_size xs) (concat (map g (batches (drop batch_size xs))))"
      using "1.IH"[OF False] "1.prems" b by simp
    have "list_all2 P (take batch_size xs @ drop batch_size xs)
            (g (take batch_size xs) @ concat (map g (batches (drop batch_size xs))))"
      using h t by (rule list_all2_appendI)
    then show ?thesis by (simp add: b)
  qed
qed

lemma batches_disjoint:
  assumes "distinct (map f xs)" "c \<in> set (batches xs)" "c' \<in> set (batches xs)"
    "x \<in> set c" "x' \<in> set c'" "f x = f x'"
  shows "c = c'"
proof -
  have d: "distinct (concat (batches xs))"
    using assms(1) by (simp add: concat_batches distinct_map)
  have "x \<in> set xs" "x' \<in> set xs"
    using assms concat_batches[of xs] by (metis UN_I set_concat)+
  with assms(1,6) have "x = x'" by (meson distinct_map inj_onD)
  show ?thesis
  proof (rule ccontr)
    assume "c \<noteq> c'"
    with d assms(2,3) have "set c \<inter> set c' = {}" by (simp add: distinct_concat_iff)
    with assms(4,5) \<open>x = x'\<close> show False by blast
  qed
qed

lemma batches_size: "c \<in> set (batches xs) \<Longrightarrow> c \<noteq> [] \<and> length c \<le> batch_size \<and> set c \<subseteq> set xs"
proof (induction xs rule: batches.induct)
  case (1 xs)
  show ?case
  proof (cases "xs = []")
    case True with "1.prems" show ?thesis by (simp add: batches.simps)
  next
    case False
    then have b: "batches xs = take batch_size xs # batches (drop batch_size xs)"
      by (subst batches.simps) simp
    from "1.prems" b consider "c = take batch_size xs" | "c \<in> set (batches (drop batch_size xs))"
      by auto
    then show ?thesis
    proof cases
      case 1 with False show ?thesis by (auto simp: batch_size_def dest: in_set_takeD)
    next
      case 2 with "1.IH"[OF False] show ?thesis by (auto dest: in_set_dropD)
    qed
  qed
qed

subsection \<open>The result, index by index\<close>

lemma translate_length:
  "length (translate_texts_openai_async be texts lang) = length texts"
  by (simp add: translate_texts_openai_async_def Let_def restore_order_length)

lemma translate_blank:
  assumes "i < length texts" "strip (texts ! i) = []"
  shows "translate_texts_openai_async be texts lang ! i = []"
proof -
  from assms have "i \<notin> set (text_indices texts)" by (simp add: text_indices_set)
  with assms(1) show ?thesis
    by (auto simp: translate_texts_openai_async_def Let_def restore_order_other)
qed

lemma translate_unit:
  assumes chunks: "\<And>c. c \<in> set (batches (non_empty_texts texts)) \<Longrightarrow>
                      list_all2 P c (process_chunk (be lang c) c)"
    and i: "i < length texts" "strip (texts ! i) \<noteq> []"
  shows "P \<lparr>item_id = text_id i, item_text = strip (texts ! i)\<rparr>
           (translate_texts_openai_async be texts lang ! i)"
proof -
  let ?idx = "text_indices texts"
  let ?items = "non_empty_texts texts"
  let ?all = "concat (map (\<lambda>chunk. process_chunk (be lang chunk) chunk) (batches ?items))"
  from i have "i \<in> set ?idx" by (simp add: text_indices_set)
  then obtain k where k: "k < length ?idx" "?idx ! k = i" by (auto simp: in_set_conv_nth)
  have all2: "list_all2 P ?items ?all"
    by (rule batches_all2) (rule chunks)
  then have len: "length ?all = length ?idx"
    by (simp add: list_all2_lengthD[symmetric] non_empty_texts_eq)
  have lk: "k < length ?items" using k by (simp add: non_empty_texts_eq)
  have "P (?items ! k) (?all ! k)"
    by (rule list_all2_nthD[OF all2 lk])
  with k have P: "P \<lparr>item_id = text_id i, item_text = strip (texts ! i)\<rparr> (?all ! k)"
    by (simp add: non_empty_texts_eq)
  have ne: "texts \<noteq> []" "?items \<noteq> []" using i k by (auto simp: non_empty_texts_eq)
  have "\<forall>x\<in>set ?idx. x < length (replicate (length texts) ([]::pystr))"
    by (simp add: text_indices_set)
  from restore_order_nth[OF text_indices_distinct this k(1), of texts ?all 0]
  have "restore_order texts ?all 0 ?idx (replicate (length texts) []) ! i = ?all ! k"
    using k len by simp
  with P ne show ?thesis
    by (simp add: translate_texts_openai_async_def Let_def)
qed

subsection \<open>What a batch can return\<close>

lemma strip_Nil [simp]: "strip [] = []"
  by (simp add: strip_def)

lemma try_chunk_cases:
  assumes "try_chunk resp c = Inr r"
  shows "r = map item_text c \<or> (\<exists>m. chunk_translations m c = Inr r)"
proof (cases resp)
  case Raised
  with assms show ?thesis by (simp add: try_chunk_def)
next
  case (Parsed j)
  show ?thesis
  proof (cases j)
    case (JObj d)
    with Parsed assms show ?thesis
      by (cases "map_of d (str ''translations'')")
         (auto simp: try_chunk_def split: sum.splits)
  qed (use Parsed assms in \<open>simp_all add: try_chunk_def\<close>)
qed

lemma process_chunk_cases:
  "list_all2 (\<lambda>it out. out = item_text it \<or> strip out \<noteq> []) c (process_chunk resp c)"
proof (cases "try_chunk resp c")
  case (Inl e)
  then show ?thesis by (simp add: process_chunk_def list_all2_conv_all_nth)
next
  case (Inr r)
  from try_chunk_cases[OF this]
  consider "r = map item_text c" | m where "chunk_translations m c = Inr r"
    by blast
  then show ?thesis
  proof cases
    case 1 with Inr show ?thesis by (simp add: process_chunk_def list_all2_conv_all_nth)
  next
    case 2
    have "list_all2 (\<lambda>it out. out = item_text it \<or> strip out \<noteq> []) c r"
      using chunk_translations_all2[OF 2]
      by (rule list_all2_mono) (simp split: option.splits json.splits if_splits)
    with Inr show ?thesis by (simp add: process_chunk_def)
  qed
qed


text \<open>
  An answer with one well-formed entry for each item, in any order.
\<close>

lemma id_to_trans_keyed:
  "\<forall>e\<in>set es. entry e = Inr (g e) \<Longrightarrow>
   id_to_trans m es = Inr (m ++ map_of (rev (map g es)))"
proof (induction es arbitrary: m)
  case Nil then show ?case by simp
next
  case (Cons e es)
  obtain k v where g: "g e = (k, v)" by (cases "g e")
  have "m(k \<mapsto> v) ++ map_of (rev (map g es)) = m ++ (map_of [(k, v)] ++ map_of (rev (map g es)))"
    by (simp add: map_add_upd_left)
  with Cons g show ?case by (simp add: map_add_assoc)
qed

lemma id_to_trans_omits:
  "id_to_trans m0 es = Inr m \<Longrightarrow>
   \<forall>e\<in>set es. (case entry e of Inl err \<Rightarrow> True | Inr (k', v) \<Rightarrow> k' \<noteq> k) \<Longrightarrow> m k = m0 k"
proof (induction es arbitrary: m0)
  case Nil then show ?case by simp
next
  case (Cons e es)
  then show ?case by (auto split: sum.splits prod.splits)
qed

lemma entry_keyed [simp]:
  "entry (keyed_entry f it) = Inr (JStr (item_id it), JStr (f it))"
  by (simp add: keyed_entry_def str_def)

lemma chunk_translations_keyed:
  "\<forall>it\<in>set c. m (JStr (item_id it)) = Some (JStr (f it)) \<Longrightarrow>
   chunk_translations m c = Inr (map (\<lambda>it. if strip (f it) = [] then item_text it else f it) c)"
  by (induction c) auto

lemma process_chunk_keyed:
  assumes d: "distinct (map item_id c)" and p: "mset (shuffle (map (keyed_entry f) c)) = mset (map (keyed_entry f) c)"
  shows "process_chunk (keyed_backend f shuffle lang c) c =
           map (\<lambda>it. if strip (f it) = [] then item_text it else f it) c"
proof -
  let ?es = "shuffle (map (keyed_entry f) c)"
  let ?g = "\<lambda>e. case entry e of Inr kv \<Rightarrow> kv | Inl err \<Rightarrow> (JNull, JNull)"
  have set_es: "set ?es = keyed_entry f ` set c"
    using p by (metis mset_eq_setD set_map)
  then have ent: "\<forall>e\<in>set ?es. entry e = Inr (?g e)" by auto
  have m: "id_to_trans Map.empty ?es = Inr (map_of (rev (map ?g ?es)))"
    using id_to_trans_keyed[OF ent, of Map.empty] by simp
  have "mset (map (fst \<circ> ?g) ?es) = mset (map (fst \<circ> ?g) (map (keyed_entry f) c))"
    by (simp only: mset_map p)
  also have "map (fst \<circ> ?g) (map (keyed_entry f) c) = map (\<lambda>it. JStr (item_id it)) c"
    by simp
  finally have "distinct (map (fst \<circ> ?g) ?es) \<longleftrightarrow> distinct (map (\<lambda>it. JStr (item_id it)) c)"
    by (rule mset_eq_imp_distinct_iff)
  moreover have "distinct (map (\<lambda>it. JStr (item_id it)) c)"
    using d by (simp add: distinct_map inj_on_def)
  ultimately have dist: "distinct (map fst (rev (map ?g ?es)))"
    by (simp add: rev_map[symmetric] comp_def)
  have look: "\<forall>it\<in>set c. map_of (rev (map ?g ?es)) (JStr (item_id it)) = Some (JStr (f it))"
  proof
    fix it assume "it \<in> set c"
    then have "keyed_entry f it \<in> set ?es" using set_es by blast
    then have "(JStr (item_id it), JStr (f it)) \<in> set (rev (map ?g ?es))"
      by (force simp: image_iff)
    with dist show "map_of (rev (map ?g ?es)) (JStr (item_id it)) = Some (JStr (f it))"
      by (rule map_of_is_SomeI)
  qed
  show ?thesis
    using m chunk_translations_keyed[OF look]
    by (simp add: process_chunk_def try_chunk_def keyed_backend_def str_def)
qed

lemma batches_distinct:
  "distinct (map f xs) \<Longrightarrow> c \<in> set (batches xs) \<Longrightarrow> distinct (map f c)"
proof (induction xs rule: batches.induct)
  case (1 xs)
  show ?case
  proof (cases "xs = []")
    case True with "1.prems" show ?thesis by (simp add: batches.simps)
  next
    case False
    then have b: "batches xs = take batch_size xs # batches (drop batch_size xs)"
      by (subst batches.simps) simp
    from "1.prems" b consider "c = take batch_size xs" | "c \<in> set (batches (drop batch_size xs))"
      by auto
    then show ?thesis
    proof cases
      case 1
      with "1.prems"(1) show ?thesis by (simp add: take_map[symmetric])
    next
      case 2
      from "1.prems"(1) have "distinct (map f (drop batch_size xs))"
        by (simp add: drop_map[symmetric])
      with "1.IH"[OF False] 2 show ?thesis by simp
    qed
  qed
qed

lemma non_empty_texts_ids_distinct: "distinct (map item_id (non_empty_texts texts))"
  by (simp add: non_empty_texts_eq comp_def distinct_map text_indices_distinct inj_on_def text_id_inj)


text \<open>
  An answer that is invalid or lacks an id.
\<close>

lemma id_to_trans_entries:
  "id_to_trans m0 es = Inr m \<Longrightarrow> \<forall>e\<in>set es. \<not> isl (entry e)"
  by (induction es arbitrary: m0) (auto split: sum.splits)

lemma id_to_trans_translation_of:
  "id_to_trans m0 es = Inr m \<Longrightarrow>
   m (JStr tid) = (case translation_of es tid of Some v \<Rightarrow> Some v | None \<Rightarrow> m0 (JStr tid))"
proof (induction es arbitrary: m0)
  case Nil then show ?case by simp
next
  case (Cons e es)
  then show ?case by (auto split: sum.splits prod.splits option.splits)
qed

lemma chunk_translations_strings:
  "chunk_translations m c = Inr r \<Longrightarrow> it \<in> set c \<Longrightarrow> m (JStr (item_id it)) = Some v \<Longrightarrow>
   is_string v"
proof (induction c arbitrary: r)
  case Nil then show ?case by simp
next
  case (Cons a c)
  then show ?case by (cases v) (auto split: sum.splits option.splits json.splits)
qed

lemma process_chunk_fallback:
  assumes bad: "structurally_invalid resp c \<or> omits_id resp tid"
  shows "list_all2 (\<lambda>it out. item_id it = tid \<longrightarrow> out = item_text it) c (process_chunk resp c)"
proof (cases "try_chunk resp c")
  case (Inl e)
  then show ?thesis by (simp add: process_chunk_def list_all2_conv_all_nth)
next
  case (Inr r)
  show ?thesis
  proof (cases "r = map item_text c")
    case True with Inr show ?thesis by (simp add: process_chunk_def list_all2_conv_all_nth)
  next
    case False
    with Inr obtain d ts es m where resp: "resp = Parsed (JObj d)"
      and ts: "map_of d (str ''translations'') = Some ts"
      and es: "iterate ts = Inr es" and m: "id_to_trans Map.empty es = Inr m"
      and r: "chunk_translations m c = Inr r"
      by (auto simp: try_chunk_def split: response.splits json.splits option.splits sum.splits)
    from id_to_trans_entries[OF m] have 1: "\<not> list_ex (\<lambda>e. isl (entry e)) es"
      by (simp add: list_ex_iff)
    have 2: "\<not> list_ex (\<lambda>it. case translation_of es (item_id it) of
                              None \<Rightarrow> False | Some v \<Rightarrow> \<not> is_string v) c"
    proof -
      have "is_string v" if "it \<in> set c" "translation_of es (item_id it) = Some v" for it v
      proof -
        from id_to_trans_translation_of[OF m, of "item_id it"] that(2)
        have "m (JStr (item_id it)) = Some v" by simp
        with r that(1) show ?thesis by (rule chunk_translations_strings)
      qed
      then show ?thesis by (auto simp: list_ex_iff split: option.splits)
    qed
    from 1 2 bad resp ts es
    have "\<forall>e\<in>set es. (case entry e of Inl err \<Rightarrow> True | Inr (k, v) \<Rightarrow> k \<noteq> JStr tid)"
      by (simp add: structurally_invalid_def omits_id_def list_all_iff)
    with m have "m (JStr tid) = None"
      by (simp add: id_to_trans_omits)
    then have "list_all2 (\<lambda>it out. item_id it = tid \<longrightarrow> out = item_text it) c r"
      using chunk_translations_all2[OF r] by (auto elim!: list_all2_mono)
    with Inr show ?thesis by (simp add: process_chunk_def)
  qed
qed

subsection \<open>A list of one text\<close>

lemma batches_small: "xs \<noteq> [] \<Longrightarrow> length xs \<le> batch_size \<Longrightarrow> batches xs = [xs]"
  by (subst batches.simps) (simp add: batches.simps)

lemma non_empty_texts_example: "non_empty_texts [str '' a ''] = [\<lparr>item_id = str ''text_0'', item_text = str ''a''\<rparr>]"
  by (simp add: non_empty_texts_def enumerate_eq_zip str_def strip_def isspace_def text_id_def str_of_nat.simps)

subsection \<open>The fallback is the stripped text\<close>

text \<open>
  When the answer for the batch of the unit at index \<open>i\<close> is structurally invalid or
  omits the unit's id, the result carries at \<open>i\<close> the unit's text as it went to the
  backend: the input text with its leading and trailing whitespace removed.
\<close>

lemma fallback_stripped_text:
  assumes c: "c \<in> set (batches (non_empty_texts texts))"
    and u: "\<lparr>item_id = text_id i, item_text = strip (texts ! i)\<rparr> \<in> set c"
    and bad: "structurally_invalid (be target_lang c) c \<or> omits_id (be target_lang c) (text_id i)"
  shows "translate_texts_openai_async be texts target_lang ! i = strip (texts ! i)"
proof -
  let ?u = "\<lparr>item_id = text_id i, item_text = strip (texts ! i)\<rparr>"
  from c u have "?u \<in> set (non_empty_texts texts)"
    using batches_size by blast
  then obtain j where j: "j \<in> set (text_indices texts)" "text_id j = text_id i"
    by (auto simp: non_empty_texts_eq)
  then have i: "i < length texts" "strip (texts ! i) \<noteq> []"
    by (simp_all add: text_id_inj text_indices_set)
  have "(\<lambda>it out. item_id it = text_id i \<longrightarrow> out = item_text it) ?u
          (translate_texts_openai_async be texts target_lang ! i)"
  proof (rule translate_unit[OF _ i])
    fix c' assume c': "c' \<in> set (batches (non_empty_texts texts))"
    show "list_all2 (\<lambda>it out. item_id it = text_id i \<longrightarrow> out = item_text it) c'
            (process_chunk (be target_lang c') c')"
    proof (cases "c' = c")
      case True
      with bad show ?thesis by (simp add: process_chunk_fallback)
    next
      case False
      have "\<forall>it\<in>set c'. item_id it \<noteq> text_id i"
      proof (intro ballI notI)
        fix it assume "it \<in> set c'" "item_id it = text_id i"
        with batches_disjoint[OF non_empty_texts_ids_distinct c' c, of it ?u] u
        have "c' = c" by simp
        with False show False ..
      qed
      moreover have "length (process_chunk (be target_lang c') c') = length c'"
        using process_chunk_cases[of c' "be target_lang c'"] by (simp add: list_all2_lengthD)
      ultimately show ?thesis by (simp add: list_all2_conv_all_nth)
    qed
  qed
  then show ?thesis by simp
qed


subsection \<open>A backend that answers keyed by id\<close>

lemma translate_keyed:
  assumes "\<And>es. mset (shuffle es) = mset es"
  shows "translate_texts_openai_async (keyed_backend f shuffle) texts target_lang =
           map (\<lambda>(i, t).
                  if strip t = [] then []
                  else if strip (f \<lparr>item_id = text_id i, item_text = strip t\<rparr>) = [] then strip t
                  else f \<lparr>item_id = text_id i, item_text = strip t\<rparr>)
             (enumerate 0 texts)"
proof (rule nth_equalityI)
  show "length (translate_texts_openai_async (keyed_backend f shuffle) texts target_lang) =
        length (map (\<lambda>(i, t).
                  if strip t = [] then []
                  else if strip (f \<lparr>item_id = text_id i, item_text = strip t\<rparr>) = [] then strip t
                  else f \<lparr>item_id = text_id i, item_text = strip t\<rparr>)
             (enumerate 0 texts))"
    by (simp add: translate_length)
next
  fix i assume "i < length (translate_texts_openai_async (keyed_backend f shuffle) texts target_lang)"
  then have i: "i < length texts" by (simp add: translate_length)
  let ?out = "translate_texts_openai_async (keyed_backend f shuffle) texts target_lang"
  have "?out ! i = (if strip (texts ! i) = [] then []
                  else if strip (f \<lparr>item_id = text_id i, item_text = strip (texts ! i)\<rparr>) = [] then strip (texts ! i)
                  else f \<lparr>item_id = text_id i, item_text = strip (texts ! i)\<rparr>)"
  proof (cases "strip (texts ! i) = []")
    case True with i show ?thesis by (simp add: translate_blank)
  next
    case False
    have "(\<lambda>it out. out = (if strip (f it) = [] then item_text it else f it))
            \<lparr>item_id = text_id i, item_text = strip (texts ! i)\<rparr> (?out ! i)"
    proof (rule translate_unit[OF _ i False])
      fix c assume c: "c \<in> set (batches (non_empty_texts texts))"
      have "distinct (map item_id c)"
        using non_empty_texts_ids_distinct c by (rule batches_distinct)
      then have "process_chunk (keyed_backend f shuffle target_lang c) c =
           map (\<lambda>it. if strip (f it) = [] then item_text it else f it) c"
        by (rule process_chunk_keyed) (rule assms)
      then show "list_all2 (\<lambda>it out. out = (if strip (f it) = [] then item_text it else f it)) c
              (process_chunk (keyed_backend f shuffle target_lang c) c)"
        by (simp add: list_all2_conv_all_nth)
    qed
    with False show ?thesis by simp
  qed
  with i show "?out ! i = map (\<lambda>(i, t).
                  if strip t = [] then []
                  else if strip (f \<lparr>item_id = text_id i, item_text = strip t\<rparr>) = [] then strip t
                  else f \<lparr>item_id = text_id i, item_text = strip t\<rparr>)
             (enumerate 0 texts) ! i"
    by (simp add: nth_enumerate_eq)
qed



section \<open>The batch translation: order, fallback, length\<close>

text \<open>
  C2, on the code. The input \<open>" a "\<close> with a backend that raises, and with a backend
  whose answer omits the id: in both cases the result at index 0 is \<open>"a"\<close>, the text as
  it went to the backend, where the claim says the input text unchanged. A deck whose run
  is \<open>" a "\<close> is saved with the run \<open>"a"\<close> when the backend raises.
\<close>

theorem fallback_strips_whitespace:
  "translate_texts_openai_async failing_backend [str '' a ''] (str ''en'') = [str ''a''] \<and>
   translate_texts_openai_async silent_backend [str '' a ''] (str ''en'') = [str ''a''] \<and>
   str ''a'' \<noteq> str '' a '' \<and>
   translate_pptx_async failing_backend [str ''in.pptx'' \<mapsto> Pptx spaced_deck]
       (str ''in.pptx'') (str ''out.pptx'') (str ''en'') =
     (Inr [PyInt 1, PyInt 1],
      [str ''in.pptx'' \<mapsto> Pptx spaced_deck,
       str ''out.pptx'' \<mapsto> Pptx (spaced_deck\<lparr>slot_text := (slot_text spaced_deck)(0 := str ''a'')\<rparr>)])"
proof -
  have 1: "translate_texts_openai_async failing_backend [str '' a ''] (str ''en'') = [str ''a'']"
    by (simp add: non_empty_texts_example batches_small batch_size_def failing_backend_def
          translate_texts_openai_async_def process_chunk_def try_chunk_def text_indices_def
          enumerate_eq_zip)
       (simp add: str_def strip_def isspace_def)
  have 2: "translate_texts_openai_async silent_backend [str '' a ''] (str ''en'') = [str ''a'']"
    by (simp add: non_empty_texts_example batches_small batch_size_def silent_backend_def
          translate_texts_openai_async_def process_chunk_def try_chunk_def text_indices_def
          enumerate_eq_zip)
       (simp add: str_def strip_def isspace_def)
  have 3: "str ''a'' \<noteq> str '' a ''" by (simp add: str_def)
  have c: "collect spaced_deck = Inr ([str '' a ''], [0])"
    by (simp add: collect_def spaced_deck_def collect_slot_def str_def strip_def isspace_def)
  have 4: "translate_pptx_async failing_backend [str ''in.pptx'' \<mapsto> Pptx spaced_deck]
       (str ''in.pptx'') (str ''out.pptx'') (str ''en'') =
     (Inr [PyInt 1, PyInt 1],
      [str ''in.pptx'' \<mapsto> Pptx spaced_deck,
       str ''out.pptx'' \<mapsto> Pptx (spaced_deck\<lparr>slot_text := (slot_text spaced_deck)(0 := str ''a'')\<rparr>)])"
    by (simp add: translate_pptx_async_def Presentation_def c 1 apply_translation_def)
       (simp add: str_def strip_def isspace_def spaced_deck_def)
  from 1 2 3 4 show ?thesis by blast
qed

text \<open>
  C3. For a non-empty input list and any backend, the result has the length of the input,
  and it is empty at an index exactly when the input there is empty or all whitespace.
\<close>

theorem translate_length_and_empty:
  assumes "texts \<noteq> []"
  shows "length (translate_texts_openai_async be texts lang) = length texts \<and>
         (\<forall>i<length texts.
            translate_texts_openai_async be texts lang ! i = [] \<longleftrightarrow>
            (\<forall>c\<in>set (texts ! i). isspace c))"
proof (intro conjI allI impI)
  show "length (translate_texts_openai_async be texts lang) = length texts"
    by (rule translate_length)
next
  fix i assume i: "i < length texts"
  show "translate_texts_openai_async be texts lang ! i = [] \<longleftrightarrow> (\<forall>c\<in>set (texts ! i). isspace c)"
  proof (cases "strip (texts ! i) = []")
    case True
    with i show ?thesis by (simp add: translate_blank strip_Nil_iff)
  next
    case False
    have "(\<lambda>it out. item_text it \<noteq> [] \<longrightarrow> out \<noteq> [])
            \<lparr>item_id = text_id i, item_text = strip (texts ! i)\<rparr>
            (translate_texts_openai_async be texts lang ! i)"
    proof (rule translate_unit[OF _ i False])
      fix c
      show "list_all2 (\<lambda>it out. item_text it \<noteq> [] \<longrightarrow> out \<noteq> []) c (process_chunk (be lang c) c)"
        using process_chunk_cases[of c "be lang c"] by (rule list_all2_mono) auto
    qed
    with False show ?thesis by (simp add: strip_Nil_iff)
  qed
qed

theorem translate_length_and_empty_witness:
  "[str ''hi'', str '' ''] \<noteq> [] \<and>
   length (translate_texts_openai_async failing_backend [str ''hi'', str '' ''] (str ''en'')) = 2 \<and>
   translate_texts_openai_async failing_backend [str ''hi'', str '' ''] (str ''en'') ! 0 \<noteq> [] \<and>
   translate_texts_openai_async failing_backend [str ''hi'', str '' ''] (str ''en'') ! 1 = []"
proof -
  let ?texts = "[str ''hi'', str '' '']"
  let ?out = "translate_texts_openai_async failing_backend ?texts (str ''en'')"
  have ne: "?texts \<noteq> []" by simp
  note inst = translate_length_and_empty[OF ne, of failing_backend "str ''en''"]
  from inst have len: "length ?out = 2" by simp
  from inst have "?out ! 0 = [] \<longleftrightarrow> (\<forall>c\<in>set (?texts ! 0). isspace c)" by simp
  then have n0: "?out ! 0 \<noteq> []" by (simp add: str_def isspace_def)
  from inst have "?out ! 1 = [] \<longleftrightarrow> (\<forall>c\<in>set (?texts ! 1). isspace c)" by simp
  then have n1: "?out ! 1 = []" by (simp add: str_def isspace_def)
  from ne len n0 n1 show ?thesis by blast
qed

text \<open>
  C4. Whatever the order in which a backend lists the entries of each batch, the result
  carries at every index the resolved translation of the input at that index: nothing for a
  blank input, else the translation of the unit with the id of that index (the unit's own
  stripped text when the translation is blank).
\<close>

theorem translate_order_preserved:
  assumes "\<And>es. mset (shuffle es) = mset es"
  shows "translate_texts_openai_async (keyed_backend f shuffle) texts target_lang =
           map (\<lambda>(i, t).
                  if strip t = [] then []
                  else if strip (f \<lparr>item_id = text_id i, item_text = strip t\<rparr>) = [] then strip t
                  else f \<lparr>item_id = text_id i, item_text = strip t\<rparr>)
             (enumerate 0 texts)"
  using assms by (rule translate_keyed)

theorem translate_order_preserved_witness:
  "(\<forall>es::json list. mset (rev es) = mset es) \<and>
   translate_texts_openai_async (keyed_backend (\<lambda>it. ascii_upper (item_text it)) rev)
     [str ''b'', str '' '', str ''a''] (str ''en'') = [str ''B'', [], str ''A'']"
proof -
  have h: "\<And>es::json list. mset (rev es) = mset es" by simp
  from translate_order_preserved[of rev "\<lambda>it. ascii_upper (item_text it)" "[str ''b'', str '' '', str ''a'']" "str ''en''", OF h]
  show ?thesis
    by (simp add: str_def strip_def isspace_def ascii_upper_def enumerate_eq_zip)
qed


section \<open>Properties of the collection pass and of the loop\<close>

subsection \<open>The collection pass computes the units of the specification\<close>

lemma fold_collect_slot:
  "fold (collect_slot tx) ss acc =
     (fst acc @ map tx (filter (\<lambda>s. strip (tx s) \<noteq> []) ss),
      snd acc @ filter (\<lambda>s. strip (tx s) \<noteq> []) ss)"
  by (induction ss arbitrary: acc) (simp_all add: collect_slot_def)

lemma fold_fold_collect_slot:
  "fold (\<lambda>row. fold (collect_slot tx) row) rows acc =
     (fst acc @ map tx (filter (\<lambda>s. strip (tx s) \<noteq> []) (concat rows)),
      snd acc @ filter (\<lambda>s. strip (tx s) \<noteq> []) (concat rows))"
  by (induction rows arbitrary: acc) (simp_all add: fold_collect_slot)

lemma collect_texts_from_shape_units:
  "collect_texts_from_shape tx sh acc =
     (if has_unrecognised sh then Inl NotImplementedError
      else Inr (fst acc @ map tx (spec_units tx sh), snd acc @ spec_units tx sh))"
  "collect_texts_from_shapes tx shs acc =
     (if list_ex has_unrecognised shs then Inl NotImplementedError
      else Inr (fst acc @ map tx (concat (map (spec_units tx) shs)),
                snd acc @ concat (map (spec_units tx) shs)))"
proof (induction tx sh acc and tx shs acc
    rule: collect_texts_from_shape_collect_texts_from_shapes.induct)
  case (1 tx shapes acc)
  then show ?case by (simp add: list_ex_iff cong: map_cong)
next
  case (2 tx rws acc)
  show ?case by (simp add: fold_fold_collect_slot)
next
  case (3 tx paragraphs acc)
  show ?case by (simp add: fold_fold_collect_slot)
next
  case (4 tx acc)
  show ?case by simp
next
  case (5 tx acc)
  show ?case by simp
next
  case (6 tx acc)
  show ?case by simp
next
  case (7 tx child_shape shapes acc)
  show ?case
  proof (cases "has_unrecognised child_shape")
    case True
    with "7.IH"(1) show ?thesis by simp
  next
    case False
    with "7.IH"(1) have "collect_texts_from_shape tx child_shape acc =
        Inr (fst acc @ map tx (spec_units tx child_shape), snd acc @ spec_units tx child_shape)"
      by simp
    with "7.IH"(2) False show ?thesis by simp
  qed
qed

lemma collect_texts_from_slides_units:
  "collect_texts_from_slides tx sl acc =
     (if list_ex has_unrecognised (concat sl) then Inl NotImplementedError
      else Inr (fst acc @ map tx (concat (map (spec_units tx) (concat sl))),
                snd acc @ concat (map (spec_units tx) (concat sl))))"
  by (induction sl arbitrary: acc) (auto simp: collect_texts_from_shape_units list_ex_iff)

lemma collect_spec_units:
  "collect prs =
     (if list_ex has_unrecognised (concat (slides prs)) then Inl NotImplementedError
      else Inr (map (slot_text prs) (concat (map (spec_units (slot_text prs)) (concat (slides prs)))),
                concat (map (spec_units (slot_text prs)) (concat (slides prs)))))"
  by (simp add: collect_def collect_texts_from_slides_units)

lemma analyze_pptx_try_raises_iff:
  "analyze_pptx_try fs path = Inl e \<longleftrightarrow>
     Presentation fs path = Inl e \<or>
     (\<exists>prs. Presentation fs path = Inr prs \<and> list_ex has_unrecognised (concat (slides prs)) \<and>
        e = NotImplementedError)"
  by (cases "Presentation fs path")
     (auto simp: analyze_pptx_try_def collect_texts_from_slides_units)

lemma analyze_pptx_collect:
  "Presentation fs path = Inr prs \<Longrightarrow>
   analyze_pptx fs path =
     (case collect prs of
        Inl e \<Rightarrow> Inr \<lparr>pages = 0, text_count = 0, success = False, error = Some e\<rparr>
      | Inr (texts, objects) \<Rightarrow>
          Inr \<lparr>pages = length (slides prs), text_count = length (zip texts objects),
               success = True, error = None\<rparr>)"
  by (simp add: analyze_pptx_def analyze_pptx_try_def collect_spec_units
        collect_texts_from_slides_units)

subsection \<open>The invariant holds in every reachable state\<close>

lemma list_all_update:
  "list_all P al \<Longrightarrow> P (k, v) \<Longrightarrow> list_all P (AList.update k v al)"
  by (induction al) auto

lemma list_all_delete:
  "list_all P al \<Longrightarrow> list_all P (AList.delete k al)"
  by (induction al) auto

lemma list_all_map_entry:
  "list_all Q al \<Longrightarrow> distinct (map fst al) \<Longrightarrow> (\<And>v. Q (k, v) \<Longrightarrow> P (k, f v)) \<Longrightarrow>
   (\<And>p. Q p \<Longrightarrow> fst p \<noteq> k \<Longrightarrow> P p) \<Longrightarrow>
   list_all P (AList.map_entry k f al)"
proof (induction al)
  case Nil then show ?case by simp
next
  case (Cons a al)
  obtain key val where a: "a = (key, val)" by (cases a)
  show ?case
  proof (cases "key = k")
    case True
    with Cons.prems a have "\<forall>p\<in>set al. fst p \<noteq> k" by (auto simp: image_iff)
    with Cons.prems have "list_all P al" by (auto simp: list_all_iff)
    with True a Cons.prems show ?thesis by simp
  next
    case False
    with a Cons show ?thesis by simp
  qed
qed

lemma list_all_mono: "list_all P xs \<Longrightarrow> (\<And>x. P x \<Longrightarrow> Q x) \<Longrightarrow> list_all Q xs"
  by (induction xs) auto

lemma invariant_initial: "loop_invariant n (initial_server fs)"
  by (simp add: loop_invariant_def initial_server_def)

lemma invariant_upload:
  assumes "loop_invariant n s"
  shows "loop_invariant n (upload_file u now s)"
  using assms
  by (auto simp: upload_file_def Let_def loop_invariant_def distinct_update
        split: sum.splits option.splits intro!: list_all_update)

lemma invariant_admit:
  assumes "loop_invariant n s" "awaiting s = None"
  shows "loop_invariant n (process_translation_queue_get n s)"
proof (cases "translation_queue s")
  case Nil
  with assms show ?thesis by (simp add: process_translation_queue_get_def)
next
  case (Cons r q)
  show ?thesis
  proof (cases "processing_count s \<ge> n")
    case True
    with Cons assms show ?thesis by (simp add: process_translation_queue_get_def loop_invariant_def)
  next
    case False
    from assms have p: "processing_count s = 0"
      and none: "list_all (\<lambda>(k, j). status j \<noteq> Processing) (active_jobs s)"
      and d: "distinct (map fst (active_jobs s))"
      by (simp_all add: loop_invariant_def)
    have "list_all (\<lambda>(k, j). status j \<noteq> Processing \<or> k = req_job_id r)
            (AList.map_entry (req_job_id r) (\<lambda>j. j\<lparr>status := Processing\<rparr>) (active_jobs s))"
      using none d by (rule list_all_map_entry) auto
    with False p d Cons show ?thesis
      by (simp add: process_translation_queue_get_def loop_invariant_def distinct_map_entry)
  qed
qed

lemma invariant_finish:
  assumes "loop_invariant n s" "awaiting s \<noteq> None"
  shows "loop_invariant n (process_translation_queue_end be now s)"
proof -
  from assms obtain r where r: "awaiting s = Some r" by auto
  with assms have p: "processing_count s = 1"
    and only: "list_all (\<lambda>(k, j). status j \<noteq> Processing \<or> k = req_job_id r) (active_jobs s)"
    and d: "distinct (map fst (active_jobs s))"
    by (simp_all add: loop_invariant_def)
  have cleared: "list_all (\<lambda>(k, j). status j \<noteq> Processing)
               (AList.map_entry (req_job_id r) f (active_jobs s))"
    if "\<And>j. status (f j) \<noteq> Processing" for f
    using only d by (rule list_all_map_entry) (use that in auto)
  obtain res fs where run: "process_translation_queue_try be (files s) r = (res, fs)" by (cases "process_translation_queue_try be (files s) r")
  show ?thesis
  proof (cases res)
    case (Inl e)
    with run r p d show ?thesis
      by (simp add: process_translation_queue_end_def loop_invariant_def distinct_map_entry cleared)
  next
    case (Inr u)
    with run r p d show ?thesis
      by (simp add: process_translation_queue_end_def loop_invariant_def distinct_map_entry cleared)
  qed
qed

lemma invariant_cleanup:
  assumes "loop_invariant n s"
  shows "loop_invariant n (cleanup_files jid paths s)"
  using assms
  by (auto simp: cleanup_files_def loop_invariant_def distinct_delete
        split: option.splits intro!: list_all_delete)

lemma invariant_step:
  "step n be s s' \<Longrightarrow> loop_invariant n s \<Longrightarrow> loop_invariant n s'"
  by (induction rule: step.induct)
     (simp_all add: invariant_upload invariant_admit invariant_finish invariant_cleanup)

lemma invariant_reachable: "reachable n be s \<Longrightarrow> loop_invariant n s"
  by (induction rule: reachable.induct) (simp_all add: invariant_initial invariant_step)

text \<open>
  With distinct keys and only one key allowed to be \<open>processing\<close>, at most one job is.
\<close>

lemma at_most_one_key:
  "distinct (map fst al) \<Longrightarrow> list_all (\<lambda>(k, j). \<not> P j \<or> k = k0) al \<Longrightarrow>
   length (filter P (map snd al)) \<le> 1"
proof (induction al)
  case Nil then show ?case by simp
next
  case (Cons a al)
  show ?case
  proof (cases "P (snd a)")
    case False with Cons show ?thesis by simp
  next
    case True
    with Cons.prems have a: "fst a = k0" by (cases a) auto
    have "filter P (map snd al) = []"
    proof (rule ccontr)
      assume "filter P (map snd al) \<noteq> []"
      then obtain b where b: "b \<in> set al" "P (snd b)"
        by (auto simp: filter_empty_conv)
      with Cons.prems(2) have "fst b = k0" by (cases b) (auto simp: list_all_iff)
      with a b Cons.prems(1) show False by (auto simp: image_iff)
    qed
    then show ?thesis by simp
  qed
qed

lemma invariant_bound:
  assumes "loop_invariant n s"
  shows "int (length (processing_jobs s)) \<le> max 0 n"
proof (cases "awaiting s")
  case None
  with assms have "list_all (\<lambda>(k, j). status j \<noteq> Processing) (active_jobs s)"
    by (simp add: loop_invariant_def)
  then have "processing_jobs s = []"
    by (auto simp: processing_jobs_def filter_empty_conv list_all_iff)
  then show ?thesis by simp
next
  case (Some r)
  with assms have d: "distinct (map fst (active_jobs s))" and n: "1 \<le> n"
    and only: "list_all (\<lambda>(k, j). \<not> status j = Processing \<or> k = req_job_id r) (active_jobs s)"
    by (simp_all add: loop_invariant_def)
  from at_most_one_key[OF d only] have "length (processing_jobs s) \<le> 1"
    by (simp add: processing_jobs_def)
  with n show ?thesis by simp
qed


subsection \<open>The tuple that is unpacked\<close>

text \<open>
  The translation returns a pair, the loop unpacks a triple: \<open>process_translation_queue_try\<close> raises on every
  input, and no job is ever \<open>completed\<close>.
\<close>

lemma translate_pptx_async_pair:
  "fst (translate_pptx_async be fs inp outp lang) = Inr result \<Longrightarrow> length result = 2"
  by (auto simp: translate_pptx_async_def Let_def split: sum.splits prod.splits if_splits)

lemma process_translation_queue_try_raises: "\<exists>e. fst (process_translation_queue_try be fs r) = Inl e"
proof (cases "translate_pptx_async be fs (req_file_path r) (req_output_path r) (req_target_lang r)")
  case (Pair res fs')
  show ?thesis
  proof (cases res)
    case (Inl e)
    with Pair show ?thesis by (simp add: process_translation_queue_try_def)
  next
    case (Inr result)
    with Pair translate_pptx_async_pair[of be fs "req_file_path r" "req_output_path r" "req_target_lang r" result]
    have "length result = 2" by simp
    then obtain a b where "result = [a, b]"
      by (cases result; cases "tl result") auto
    with Pair Inr show ?thesis by (simp add: process_translation_queue_try_def)
  qed
qed

lemma list_all_map_entry_any:
  "list_all P al \<Longrightarrow> (\<And>k v. P (k, v) \<Longrightarrow> P (k, f v)) \<Longrightarrow>
   list_all P (AList.map_entry k0 f al)"
  by (induction al) auto

lemma process_translation_queue_end_never_completes:
  assumes "list_all (\<lambda>(k, j). status j \<noteq> Completed) (active_jobs s)"
  shows "list_all (\<lambda>(k, j). status j \<noteq> Completed) (active_jobs (process_translation_queue_end be now s))"
proof (cases "awaiting s")
  case None
  with assms show ?thesis by (simp add: process_translation_queue_end_def)
next
  case (Some r)
  obtain e where "fst (process_translation_queue_try be (files s) r) = Inl e" using process_translation_queue_try_raises by blast
  then obtain fs where run: "process_translation_queue_try be (files s) r = (Inl e, fs)"
    by (cases "process_translation_queue_try be (files s) r") auto
  have "list_all (\<lambda>(k, j). status j \<noteq> Completed)
          (AList.map_entry (req_job_id r)
             (\<lambda>j. j\<lparr>status := Failed, error_message := Some e, completed_at := Some now\<rparr>)
             (active_jobs s))"
    using assms by (rule list_all_map_entry_any) auto
  with Some run show ?thesis by (simp add: process_translation_queue_end_def)
qed

lemma never_completed:
  "reachable n be s \<Longrightarrow> list_all (\<lambda>(k, j). status j \<noteq> Completed) (active_jobs s)"
proof (induction rule: reachable.induct)
  case (reachable_initial fs)
  show ?case by (simp add: initial_server_def)
next
  case (reachable_step s s')
  from reachable_step.hyps(2) reachable_step.IH show ?case
  proof (induction rule: step.induct)
    case (step_upload s u now)
    then show ?case
      by (auto simp: upload_file_def Let_def split: sum.splits intro!: list_all_update)
  next
    case (step_admit s)
    have "list_all (\<lambda>(k, j). status j \<noteq> Completed)
            (AList.map_entry k0 (\<lambda>j. j\<lparr>status := Processing\<rparr>) (active_jobs s))" for k0
      using step_admit.prems by (rule list_all_map_entry_any) auto
    with step_admit show ?case
      by (auto simp: process_translation_queue_get_def split: list.splits)
  next
    case (step_finish s now)
    then show ?case by (simp add: process_translation_queue_end_never_completes)
  next
    case (step_cleanup s jid paths)
    then show ?case by (simp add: cleanup_files_def list_all_delete)
  qed
qed

subsection \<open>The deck of three slides\<close>

lemma demo_collect:
  "collect demo_deck =
     Inr ([str ''hello'', str ''world'', str ''alpha'', str ''beta'', str ''gamma''], [0, 1, 2, 3, 4])"
  by (simp add: collect_def demo_deck_def collect_slot_def str_def strip_def isspace_def)

lemma demo_analysis:
  "analyze_pptx (fs(p \<mapsto> Pptx demo_deck)) p =
     Inr \<lparr>pages = 3, text_count = 5, success = True, error = None\<rparr>"
  by (simp add: analyze_pptx_def analyze_pptx_try_def Presentation_def demo_deck_def
      collect_slot_def str_def strip_def isspace_def)

lemma demo_translation:
  "translate_texts_openai_async uppercase_backend
     [str ''hello'', str ''world'', str ''alpha'', str ''beta'', str ''gamma''] lang =
   [str ''HELLO'', str ''WORLD'', str ''ALPHA'', str ''BETA'', str ''GAMMA'']"
  unfolding uppercase_backend_def
  by (subst translate_keyed) (simp_all add: enumerate_eq_zip str_def strip_def isspace_def ascii_upper_def)

lemma demo_queued_eq:
  "demo_queued =
     \<lparr>translation_queue =
        [\<lparr>req_job_id = str ''job-1'', req_file_path = str ''/tmp/a/input_job-1.pptx'',
          req_output_path = str ''/tmp/a/output_job-1.pptx'', req_filename = str ''deck.pptx'',
          req_target_lang = str ''en'', ip_address = str ''10.0.0.1'', file_size = 40000,
          req_pages = 3, req_text_count = 5\<rparr>],
      active_jobs =
        [(str ''job-1'',
          \<lparr>job_id = str ''job-1'', job_filename = str ''deck.pptx'', job_target_lang = str ''en'',
           status = Queued, job_pages = Some 3, job_text_count = Some 5, error_message = None,
           created_at = 0, completed_at = None\<rparr>)],
      processing_count = 0,
      files = [str ''/tmp/a/input_job-1.pptx'' \<mapsto> Pptx demo_deck],
      awaiting = None\<rparr>"
  by (simp add: demo_queued_def upload_file_def Let_def demo_upload_def demo_analysis initial_server_def)

lemma demo_processing_eq:
  "demo_processing =
     \<lparr>translation_queue = [],
      active_jobs =
        [(str ''job-1'',
          \<lparr>job_id = str ''job-1'', job_filename = str ''deck.pptx'', job_target_lang = str ''en'',
           status = Processing, job_pages = Some 3, job_text_count = Some 5, error_message = None,
           created_at = 0, completed_at = None\<rparr>)],
      processing_count = 1,
      files = [str ''/tmp/a/input_job-1.pptx'' \<mapsto> Pptx demo_deck],
      awaiting =
        Some \<lparr>req_job_id = str ''job-1'', req_file_path = str ''/tmp/a/input_job-1.pptx'',
          req_output_path = str ''/tmp/a/output_job-1.pptx'', req_filename = str ''deck.pptx'',
          req_target_lang = str ''en'', ip_address = str ''10.0.0.1'', file_size = 40000,
          req_pages = 3, req_text_count = 5\<rparr>\<rparr>"
  by (simp add: demo_processing_def demo_queued_eq process_translation_queue_get_def)

lemma demo_translate_pptx:
  "translate_pptx_async uppercase_backend [inp \<mapsto> Pptx demo_deck] inp outp lang =
     (Inr [PyInt 3, PyInt 5],
      [inp \<mapsto> Pptx demo_deck, outp \<mapsto> Pptx
        (demo_deck\<lparr>slot_text :=
      (slot_text demo_deck)(0 := str ''HELLO'', 1 := str ''WORLD'', 2 := str ''ALPHA'',
         3 := str ''BETA'', 4 := str ''GAMMA'')\<rparr>)])"
  by (simp add: translate_pptx_async_def Presentation_def demo_collect demo_translation
        apply_translation_def)
     (simp add: str_def strip_def isspace_def demo_deck_def)

lemma demo_run_job:
  "process_translation_queue_try uppercase_backend [str ''/tmp/a/input_job-1.pptx'' \<mapsto> Pptx demo_deck]
     \<lparr>req_job_id = str ''job-1'', req_file_path = str ''/tmp/a/input_job-1.pptx'',
          req_output_path = str ''/tmp/a/output_job-1.pptx'', req_filename = str ''deck.pptx'',
          req_target_lang = str ''en'', ip_address = str ''10.0.0.1'', file_size = 40000,
          req_pages = 3, req_text_count = 5\<rparr> =
   (Inl ValueError, [str ''/tmp/a/input_job-1.pptx'' \<mapsto> Pptx demo_deck, str ''/tmp/a/output_job-1.pptx'' \<mapsto> Pptx
        (demo_deck\<lparr>slot_text :=
      (slot_text demo_deck)(0 := str ''HELLO'', 1 := str ''WORLD'', 2 := str ''ALPHA'',
         3 := str ''BETA'', 4 := str ''GAMMA'')\<rparr>)])"
  by (simp add: process_translation_queue_try_def demo_translate_pptx)


lemma awaiting_upload_file [simp]: "awaiting (upload_file u now s) = awaiting s"
  by (simp add: upload_file_def Let_def split: sum.splits)

lemma demo_two_jobs_reachable: "reachable 1 uppercase_backend demo_two_jobs"
proof -
  have "reachable 1 uppercase_backend (initial_server Map.empty)"
    by (rule reachable_initial)
  then have "reachable 1 uppercase_backend demo_queued"
    unfolding demo_queued_def by (rule reachable_step) (rule step_upload)
  then have r: "reachable 1 uppercase_backend (upload_file second_upload 1 demo_queued)"
    by (rule reachable_step) (rule step_upload)
  have "awaiting (upload_file second_upload 1 demo_queued) = None"
    by (simp add: demo_queued_eq)
  then have "step 1 uppercase_backend (upload_file second_upload 1 demo_queued) demo_two_jobs"
    unfolding demo_two_jobs_def by (rule step_admit)
  with r show ?thesis by (rule reachable_step)
qed

lemma demo_two_jobs_processing:
  "map job_id (processing_jobs demo_two_jobs) = [str ''job-1'']"
  by (simp add: demo_two_jobs_def upload_file_def Let_def second_upload_def demo_analysis
        demo_queued_eq process_translation_queue_get_def processing_jobs_def str_def)



section \<open>Analysis, scheduling and the end-to-end run\<close>

text \<open>
  C1, on the code. The deck of three slides and five units is uploaded and processed with
  the backend that upper-cases. The job is \<open>queued\<close>, then \<open>processing\<close>; the translated
  deck is saved with the five upper-cased texts in traversal order; then the loop unpacks
  three values from the pair that \<open>translate_pptx_async\<close> returns, which raises
  \<open>ValueError\<close>, and the job ends \<open>failed\<close>, not \<open>completed\<close>.
\<close>

theorem demo_job_ends_failed:
  "job_status_of demo_queued (str ''job-1'') = Some Queued \<and>
   job_status_of demo_processing (str ''job-1'') = Some Processing \<and>
   job_status_of demo_finished (str ''job-1'') = Some Failed \<and>
   map_option error_message (map_of (active_jobs demo_finished) (str ''job-1'')) = Some (Some ValueError) \<and>
   unit_texts_at demo_finished (str ''/tmp/a/output_job-1.pptx'') =
     Some [str ''HELLO'', str ''WORLD'', str ''ALPHA'', str ''BETA'', str ''GAMMA'']"
  by (simp add: demo_finished_def process_translation_queue_end_def demo_processing_eq demo_queued_eq demo_run_job
        job_status_of_def unit_texts_at_def)
     (simp add: collect_def demo_deck_def collect_slot_def str_def strip_def isspace_def)

text \<open>
  C5. The count of units that the analysis pass reports for a document is the number of
  pairs of a text and its object that the collection pass of the translation produces for
  it; and when the collection pass raises, the analysis reports the failure with that
  error.
\<close>

theorem analysis_agrees_with_collection:
  "(case collect prs of
      Inl e \<Rightarrow>
        analyze_pptx (fs(path \<mapsto> Pptx prs)) path =
          Inr \<lparr>pages = 0, text_count = 0, success = False, error = Some e\<rparr>
    | Inr (texts, objects) \<Rightarrow>
        analyze_pptx (fs(path \<mapsto> Pptx prs)) path =
          Inr \<lparr>pages = length (slides prs), text_count = length (zip texts objects),
               success = True, error = None\<rparr>)"
proof -
  have "Presentation (fs(path \<mapsto> Pptx prs)) path = Inr prs"
    by (simp add: Presentation_def)
  from analyze_pptx_collect[OF this] show ?thesis
    by (simp split: sum.splits prod.splits)
qed

text \<open>
  C8. In every state that uploads, turns of the loop and cleanups can reach, the number of
  jobs that are \<open>processing\<close> is at most the bound (a bound that is not negative).
\<close>

theorem processing_jobs_bounded:
  "reachable max_concurrent be s \<Longrightarrow> 0 \<le> max_concurrent \<Longrightarrow>
   int (length (processing_jobs s)) \<le> max_concurrent"
  using invariant_bound[OF invariant_reachable, of max_concurrent be s] by simp

theorem processing_jobs_bounded_witness:
  "reachable 1 uppercase_backend demo_two_jobs \<and> (0::int) \<le> 1 \<and>
   length (active_jobs demo_two_jobs) = 2 \<and>
   int (length (processing_jobs demo_two_jobs)) \<le> 1"
proof -
  have n: "(0::int) \<le> 1" by simp
  have "length (active_jobs demo_two_jobs) = 2"
    by (simp add: demo_two_jobs_def upload_file_def Let_def second_upload_def demo_analysis
        demo_queued_eq process_translation_queue_get_def str_def)
  with processing_jobs_bounded[OF demo_two_jobs_reachable n] demo_two_jobs_reachable
  show ?thesis by simp
qed

text \<open>
  C9. The analysis never raises: for every path it returns a result. Whatever the body of
  its \<open>try\<close> raises, be it the loading of the presentation or, with a presentation that
  loads, a shape of an unknown type met at any depth of the traversal, the result has
  \<open>success\<close> false, zero pages, zero texts and the error; these are the failures there
  are.
\<close>

theorem analyze_pptx_total:
  "(\<exists>result. analyze_pptx fs path = Inr result) \<and>
   (\<forall>e. analyze_pptx_try fs path = Inl e \<longrightarrow>
        analyze_pptx fs path =
          Inr \<lparr>pages = 0, text_count = 0, success = False, error = Some e\<rparr>) \<and>
   (\<forall>e. analyze_pptx_try fs path = Inl e \<longleftrightarrow>
        Presentation fs path = Inl e \<or>
        (\<exists>prs. Presentation fs path = Inr prs \<and>
           list_ex has_unrecognised (concat (slides prs)) \<and> e = NotImplementedError))"
proof (intro conjI allI impI)
  show "\<exists>result. analyze_pptx fs path = Inr result"
    by (cases "analyze_pptx_try fs path") (simp_all add: analyze_pptx_def)
next
  fix e assume "analyze_pptx_try fs path = Inl e"
  then show "analyze_pptx fs path =
      Inr \<lparr>pages = 0, text_count = 0, success = False, error = Some e\<rparr>"
    by (simp add: analyze_pptx_def)
next
  fix e
  show "analyze_pptx_try fs path = Inl e \<longleftrightarrow>
        Presentation fs path = Inl e \<or>
        (\<exists>prs. Presentation fs path = Inr prs \<and>
           list_ex has_unrecognised (concat (slides prs)) \<and> e = NotImplementedError)"
    by (rule analyze_pptx_try_raises_iff)
qed

theorem analyze_pptx_total_witness:
  "Presentation Map.empty (str ''deck.pptx'') = Inl PackageNotFoundError \<and>
   analyze_pptx Map.empty (str ''deck.pptx'') =
     Inr \<lparr>pages = 0, text_count = 0, success = False, error = Some PackageNotFoundError\<rparr> \<and>
   Presentation [str ''odd.pptx'' \<mapsto> Pptx odd_deck] (str ''odd.pptx'') = Inr odd_deck \<and>
   list_ex has_unrecognised (concat (slides odd_deck)) \<and>
   analyze_pptx [str ''odd.pptx'' \<mapsto> Pptx odd_deck] (str ''odd.pptx'') =
     Inr \<lparr>pages = 0, text_count = 0, success = False, error = Some NotImplementedError\<rparr>"
proof -
  note a = analyze_pptx_total[of Map.empty "str ''deck.pptx''"]
  note b = analyze_pptx_total[of "[str ''odd.pptx'' \<mapsto> Pptx odd_deck]" "str ''odd.pptx''"]
  have 1: "Presentation Map.empty (str ''deck.pptx'') = Inl PackageNotFoundError"
    by (simp add: Presentation_def)
  with a have "analyze_pptx_try Map.empty (str ''deck.pptx'') = Inl PackageNotFoundError"
    by blast
  with a have 2: "analyze_pptx Map.empty (str ''deck.pptx'') =
     Inr \<lparr>pages = 0, text_count = 0, success = False, error = Some PackageNotFoundError\<rparr>"
    by blast
  have 3: "Presentation [str ''odd.pptx'' \<mapsto> Pptx odd_deck] (str ''odd.pptx'') = Inr odd_deck"
    by (simp add: Presentation_def)
  have 4: "list_ex has_unrecognised (concat (slides odd_deck))"
    by (simp add: odd_deck_def)
  from b 3 4
  have "analyze_pptx_try [str ''odd.pptx'' \<mapsto> Pptx odd_deck] (str ''odd.pptx'') =
          Inl NotImplementedError"
    by blast
  with b have 5: "analyze_pptx [str ''odd.pptx'' \<mapsto> Pptx odd_deck] (str ''odd.pptx'') =
     Inr \<lparr>pages = 0, text_count = 0, success = False, error = Some NotImplementedError\<rparr>"
    by blast
  from 1 2 3 4 5 show ?thesis by blast
qed


section \<open>Properties of the rounding and of the pricing calculator\<close>

subsection \<open>The exponent of a positive rational\<close>

lemma bit_length_bounds:
  "0 < n \<Longrightarrow> 2 ^ (bit_length n - 1) \<le> n \<and> n < 2 ^ bit_length n"
proof (induction n rule: bit_length.induct)
  case (1 n)
  show ?case
  proof (cases "n div 2 = 0")
    case True
    with "1.prems" have "n = 1" by presburger
    then show ?thesis by (simp add: bit_length.simps)
  next
    case False
    then have pos: "0 < n div 2" by simp
    from "1.IH"[OF _ pos] "1.prems"
    have ih: "2 ^ (bit_length (n div 2) - 1) \<le> n div 2" "n div 2 < 2 ^ bit_length (n div 2)"
      by simp_all
    have b: "bit_length n = Suc (bit_length (n div 2))"
      using "1.prems" by (subst bit_length.simps) simp
    have bpos: "0 < bit_length (n div 2)"
      using pos by (subst bit_length.simps) simp
    then obtain k where k: "bit_length (n div 2) = Suc k" by (cases "bit_length (n div 2)") auto
    from ih k have "2 ^ k \<le> n div 2" "n div 2 < 2 * 2 ^ k" by simp_all
    then have "2 * 2 ^ k \<le> n" "n < 2 * (2 * 2 ^ k)" by presburger+
    with b k show ?thesis by simp
  qed
qed

lemma bit_length_eqI:
  assumes "2 ^ k \<le> n" "n < 2 ^ Suc k"
  shows "bit_length n = Suc k"
proof -
  have pos: "0 < n"
  proof (rule ccontr)
    assume "\<not> 0 < n"
    with assms(1) show False by simp
  qed
  from bit_length_bounds[OF pos]
  have lo: "2 ^ (bit_length n - 1) \<le> n" and hi: "n < 2 ^ bit_length n" by simp_all
  from assms(1) hi have "(2::nat) ^ k < 2 ^ bit_length n" by (rule le_less_trans)
  then have 1: "k < bit_length n" by (rule power_less_imp_less_exp[rotated]) simp
  from lo assms(2) have "(2::nat) ^ (bit_length n - 1) < 2 ^ Suc k" by (rule le_less_trans)
  then have 2: "bit_length n - 1 < Suc k" by (rule power_less_imp_less_exp[rotated]) simp
  from 1 2 show ?thesis by simp
qed

lemma nat_int_Suc: "nat (int j + 1) = Suc j" "nat (1 + int j) = Suc j"
  by arith+

lemma nat_pow2_bounds:
  assumes "(2::int) ^ k \<le> z" "z < 2 ^ Suc k"
  shows "2 ^ k \<le> nat z" "nat z < 2 ^ Suc k"
proof -
  have "(0::int) \<le> 2 ^ k" by simp
  with assms(1) have "0 \<le> z" by linarith
  then obtain n where n: "z = int n" by (rule nonneg_int_cases)
  from assms(1) n have "int (2 ^ k) \<le> int n" by simp
  then show "2 ^ k \<le> nat z" using n by (simp only: of_nat_le_iff nat_int)
  from assms(2) n have "int n < int (2 ^ Suc k)" by simp
  then show "nat z < 2 ^ Suc k" using n by (simp only: of_nat_less_iff nat_int)
qed

lemma floor_log2_nonneg:
  fixes x :: rat
  assumes "2 ^ k \<le> x" "x < 2 ^ Suc k"
  shows "floor_log2 x = int k"
proof -
  have "(1::rat) \<le> 2 ^ k" by simp
  with assms(1) have x1: "1 \<le> x" by linarith
  have "(2::int) ^ k \<le> \<lfloor>x\<rfloor>" using assms(1) by (simp add: le_floor_iff)
  moreover have "\<lfloor>x\<rfloor> < (2::int) ^ Suc k" using assms(2) by (simp add: floor_less_iff)
  ultimately have "2 ^ k \<le> nat \<lfloor>x\<rfloor>" "nat \<lfloor>x\<rfloor> < 2 ^ Suc k"
    by (rule nat_pow2_bounds)+
  then have "bit_length (nat \<lfloor>x\<rfloor>) = Suc k" by (rule bit_length_eqI)
  with x1 show ?thesis by (simp add: floor_log2_def)
qed

lemma floor_log2_neg:
  fixes x :: rat
  assumes "1 / 2 ^ Suc j \<le> x" "x < 1 / 2 ^ j"
  shows "floor_log2 x = - int (Suc j)"
proof -
  have pos: "0 < x" using assms(1) by (rule less_le_trans[rotated]) simp
  have "(1::rat) / 2 ^ j \<le> 1" by (simp add: divide_le_eq)
  with assms(2) have x1: "\<not> 1 \<le> x" by linarith
  have lo: "2 ^ j < 1 / x" using assms(2) pos by (simp add: field_simps)
  have hi: "1 / x \<le> 2 ^ Suc j" using assms(1) pos by (simp add: field_simps)
  show ?thesis
  proof (cases "x = 1 / 2 ^ Suc j")
    case True
    then have "1 / x = 2 ^ Suc j" by simp
    then have "\<lfloor>1 / x\<rfloor> = (2::int) ^ Suc j"
      by (metis floor_of_int of_int_numeral of_int_power)
    then have "\<lfloor>1 / x\<rfloor> = int (2 ^ Suc j)" by simp
    then have "nat \<lfloor>1 / x\<rfloor> = 2 ^ Suc j" by (simp only: nat_int)
    then have "bit_length (nat \<lfloor>1 / x\<rfloor>) = Suc (Suc j)"
      by (intro bit_length_eqI) simp_all
    with x1 True show ?thesis
      by (simp add: floor_log2_def pow2_def Let_def nat_int_Suc)
  next
    case False
    with assms(1) have "1 / 2 ^ Suc j < x" by simp
    then have hi': "1 / x < 2 ^ Suc j" using pos by (simp add: field_simps)
    have "(2::int) ^ j \<le> \<lfloor>1 / x\<rfloor>" using lo by (simp add: le_floor_iff)
    moreover have "\<lfloor>1 / x\<rfloor> < (2::int) ^ Suc j" using hi' by (simp add: floor_less_iff)
    ultimately have "2 ^ j \<le> nat \<lfloor>1 / x\<rfloor>" "nat \<lfloor>1 / x\<rfloor> < 2 ^ Suc j"
      by (rule nat_pow2_bounds)+
    then have b: "bit_length (nat \<lfloor>1 / x\<rfloor>) = Suc j" by (rule bit_length_eqI)
    have "x * 2 ^ j < 1" using assms(2) by (simp add: field_simps)
    then have "x * 2 ^ j \<noteq> 1" by simp
    with x1 b show ?thesis
      by (simp add: floor_log2_def pow2_def)
  qed
qed

lemma floor_log2_eqI:
  assumes "pow2 e \<le> x" "x < pow2 (e + 1)"
  shows "floor_log2 x = e"
proof (cases "0 \<le> e")
  case True
  then have "nat (e + 1) = Suc (nat e)" by simp
  with True assms have "2 ^ nat e \<le> x" "x < 2 ^ Suc (nat e)"
    by (simp_all add: pow2_def)
  then have "floor_log2 x = int (nat e)" by (rule floor_log2_nonneg)
  with True show ?thesis by simp
next
  case False
  then obtain j where j: "nat (- e) = Suc j" by (cases "nat (- e)") auto
  then have e: "e = - int (Suc j)" using False by linarith
  have "nat (- (e + 1)) = j" using e by simp
  moreover have "0 \<le> e + 1 \<Longrightarrow> j = 0 \<and> e + 1 = 0" using e by simp
  ultimately have "pow2 (e + 1) = 1 / 2 ^ j"
    by (auto simp: pow2_def)
  moreover have "pow2 e = 1 / 2 ^ Suc j" by (simp add: pow2_def e nat_int_Suc)
  ultimately have "1 / 2 ^ Suc j \<le> x" "x < 1 / 2 ^ j" using assms by simp_all
  then have "floor_log2 x = - int (Suc j)" by (rule floor_log2_neg)
  with e show ?thesis by simp
qed

subsection \<open>Rounding, evaluated\<close>

lemma round_half_even_eqI:
  assumes "of_int m - 1 / 2 < x" "x < of_int m + 1 / 2"
  shows "round_half_even x = m"
proof -
  have f: "of_int \<lfloor>x\<rfloor> \<le> x" "x < of_int \<lfloor>x\<rfloor> + 1" by linarith+
  from assms f have "of_int \<lfloor>x\<rfloor> < (of_int m :: rat) + 1" "(of_int m :: rat) - 2 < of_int \<lfloor>x\<rfloor>"
    by linarith+
  then have "\<lfloor>x\<rfloor> < m + 1" "m - 2 < \<lfloor>x\<rfloor>"
    by (metis of_int_less_iff of_int_add of_int_1, metis of_int_less_iff of_int_diff of_int_numeral)
  then consider "\<lfloor>x\<rfloor> = m" | "\<lfloor>x\<rfloor> = m - 1" by linarith
  then show ?thesis
  proof cases
    case 1
    with assms show ?thesis by (simp add: round_half_even_def Let_def)
  next
    case 2
    then have "x - of_int \<lfloor>x\<rfloor> = x - of_int m + 1" by simp
    with assms have "1 / 2 < x - of_int \<lfloor>x\<rfloor>" by linarith
    with 2 show ?thesis by (simp add: round_half_even_def Let_def)
  qed
qed

lemma round_half_even_of_int [simp]: "round_half_even (of_int m) = m"
  by (simp add: round_half_even_def)

lemma float64_eqI:
  assumes "pow2 e \<le> \<bar>x\<bar>" "\<bar>x\<bar> < pow2 (e + 1)" "- 1022 \<le> e"
    and "round_half_even (x / pow2 (e - 52)) = m"
  shows "float64 x = of_int m * pow2 (e - 52)"
proof -
  have "0 < pow2 e" by (simp add: pow2_def)
  with assms(1) have "x \<noteq> 0" by auto
  moreover have "floor_log2 \<bar>x\<bar> = e" using assms(1,2) by (rule floor_log2_eqI)
  ultimately show ?thesis using assms(3,4) by (simp add: float64_def Let_def max_def)
qed

lemma float64_exact:
  assumes "pow2 e \<le> \<bar>of_int m * pow2 (e - 52)\<bar>" "\<bar>of_int m * pow2 (e - 52)\<bar> < pow2 (e + 1)" "- 1022 \<le> e"
  shows "float64 (of_int m * pow2 (e - 52)) = of_int m * pow2 (e - 52)"
proof -
  have "0 < pow2 (e - 52)" by (simp add: pow2_def)
  then have "round_half_even (of_int m * pow2 (e - 52) / pow2 (e - 52)) = m" by simp
  from float64_eqI[OF assms this] show ?thesis .
qed

lemma round_half_even_tie:
  assumes "x = of_int n + 1 / 2"
  shows "round_half_even x = (if even n then n else n + 1)"
proof -
  have "\<lfloor>x\<rfloor> = n" unfolding assms by (rule floor_unique) simp_all
  then show ?thesis by (simp add: round_half_even_def assms)
qed

text \<open>
  The floats of the example: the two prices, the three costs, and their roundings to six
  places. The sum of the two costs lies halfway between two floats and goes to the even one.
\<close>

lemma float64_15: "float64 (15 / 100000) = 5534023222112865 / 2 ^ 65"
proof -
  have "round_half_even ((15 / 100000) / pow2 (- 13 - 52)) = 5534023222112865"
    by (rule round_half_even_eqI) (simp_all add: pow2_def)
  from float64_eqI[OF _ _ _ this] show ?thesis by (simp add: pow2_def)
qed

lemma float64_60: "float64 (6 / 10000) = 5534023222112865 / 2 ^ 63"
proof -
  have "round_half_even ((6 / 10000) / pow2 (- 11 - 52)) = 5534023222112865"
    by (rule round_half_even_eqI) (simp_all add: pow2_def)
  from float64_eqI[OF _ _ _ this] show ?thesis by (simp add: pow2_def)
qed

lemma float64_30: "float64 (3 / 10000) = 5534023222112865 / 2 ^ 64"
proof -
  have "round_half_even ((3 / 10000) / pow2 (- 12 - 52)) = 5534023222112865"
    by (rule round_half_even_eqI) (simp_all add: pow2_def)
  from float64_eqI[OF _ _ _ this] show ?thesis by (simp add: pow2_def)
qed

lemma float64_45: "float64 (45 / 100000) = 4150517416584649 / 2 ^ 63"
proof -
  have "round_half_even ((45 / 100000) / pow2 (- 12 - 52)) = 8301034833169298"
    by (rule round_half_even_eqI) (simp_all add: pow2_def)
  from float64_eqI[OF _ _ _ this] show ?thesis by (simp add: pow2_def)
qed

lemma float64_one: "float64 1 = 1"
  using float64_exact[of 0 "2 ^ 52"] by (simp add: pow2_def)

lemma float64_half: "float64 (1 / 2) = 1 / 2"
  using float64_exact[of "- 1" "2 ^ 52"] by (simp add: pow2_def)

lemma float64_input_cost: "float64 (5534023222112865 / 2 ^ 65) = 5534023222112865 / 2 ^ 65"
  using float64_exact[of "- 13" 5534023222112865] by (simp add: pow2_def)

lemma float64_output_cost: "float64 (5534023222112865 / 2 ^ 64) = 5534023222112865 / 2 ^ 64"
  using float64_exact[of "- 12" 5534023222112865] by (simp add: pow2_def)

lemma float64_total_cost:
  "float64 (5534023222112865 / 2 ^ 65 + 5534023222112865 / 2 ^ 64) = 4150517416584649 / 2 ^ 63"
proof -
  have "round_half_even ((5534023222112865 / 2 ^ 65 + 5534023222112865 / 2 ^ 64) / pow2 (- 12 - 52)) =
          (if even (8301034833169297::int) then 8301034833169297 else 8301034833169297 + 1)"
    by (rule round_half_even_tie) (simp add: pow2_def)
  then have "round_half_even ((5534023222112865 / 2 ^ 65 + 5534023222112865 / 2 ^ 64) / pow2 (- 12 - 52)) =
          8301034833169298" by simp
  from float64_eqI[OF _ _ _ this] show ?thesis by (simp add: pow2_def)
qed

lemma round6_input_cost: "round6 (5534023222112865 / 2 ^ 65) = float64 (15 / 100000)"
proof -
  have "round_half_even (5534023222112865 / 2 ^ 65 * 1000000) = 150"
    by (rule round_half_even_eqI) simp_all
  then show ?thesis by (simp add: round6_def)
qed

lemma round6_output_cost: "round6 (5534023222112865 / 2 ^ 64) = float64 (3 / 10000)"
proof -
  have "round_half_even (5534023222112865 / 2 ^ 64 * 1000000) = 300"
    by (rule round_half_even_eqI) simp_all
  then show ?thesis by (simp add: round6_def)
qed

lemma round6_total_cost: "round6 (4150517416584649 / 2 ^ 63) = float64 (45 / 100000)"
proof -
  have "round_half_even (4150517416584649 / 2 ^ 63 * 1000000) = 450"
    by (rule round_half_even_eqI) simp_all
  then show ?thesis by (simp add: round6_def)
qed

subsection \<open>The bill of the example\<close>

lemma normalize_gpt_4o_mini: "normalize_model_name ''gpt-4o-mini'' = ''gpt-4o-mini''"
  by (simp add: normalize_model_name_def lower_def lower_char_def strip_chars_def isspace_def PRICING_def)

lemma pricing_gpt_4o_mini:
  "pricing_of ''gpt-4o-mini'' = Inr \<lparr>price_input = float64 (15 / 100000), price_output = float64 (6 / 10000)\<rparr>"
  by (simp add: pricing_of_def PRICING_def)

lemma true_div_1000_1000: "true_div 1000 1000 = Inr 1"
  by (simp add: true_div_def float64_one)

lemma true_div_500_1000: "true_div 500 1000 = Inr (1 / 2)"
  by (simp add: true_div_def float64_half)

lemma cost_gpt_4o_mini:
  "calculate_cost ''gpt-4o-mini'' 1000 500 =
     Inr \<lparr>input_cost = float64 (15 / 100000), output_cost = float64 (3 / 10000),
          total_cost = float64 (45 / 100000)\<rparr>"
proof -
  have inp: "float64 (1 * float64 (15 / 100000)) = 5534023222112865 / 2 ^ 65"
    by (simp only: mult_1 float64_15 float64_input_cost)
  have "1 / 2 * (5534023222112865 / 2 ^ 63) = (5534023222112865 / 2 ^ 64 :: rat)" by simp
  then have outp: "float64 (1 / 2 * float64 (6 / 10000)) = 5534023222112865 / 2 ^ 64"
    by (simp only: float64_60 float64_output_cost)
  show ?thesis
    by (simp only: calculate_cost_def normalize_gpt_4o_mini pricing_gpt_4o_mini sum.case
          true_div_1000_1000 true_div_500_1000 Let_def pricing.select_convs inp outp
          float64_total_cost round6_input_cost round6_output_cost round6_total_cost)
qed

subsection \<open>Lower case and stripping\<close>

lemma lower_char_idem [simp]: "lower_char (lower_char c) = lower_char c"
proof -
  have "of_char (char_of (of_char c + 32 :: nat)) = (of_char c + 32 :: nat)"
    if "(of_char c :: nat) \<le> 222"
    using that by simp
  then show ?thesis
    by (auto simp: lower_char_def Let_def)
qed

lemma isspace_lower_char [simp]: "isspace (of_char (lower_char c)) = isspace (of_char c)"
proof -
  have "of_char (char_of (of_char c + 32 :: nat)) = (of_char c + 32 :: nat)"
    if "(of_char c :: nat) \<le> 222"
    using that by simp
  then show ?thesis
    by (auto simp: lower_char_def Let_def isspace_def)
qed

lemma lower_idem [simp]: "lower (lower s) = lower s"
  by (simp add: lower_def)

lemma dropWhile_space_lower:
  "dropWhile (\<lambda>c. isspace (of_char c)) (map lower_char xs) =
   map lower_char (dropWhile (\<lambda>c. isspace (of_char c)) xs)"
  by (induction xs) simp_all

lemma strip_chars_lower: "strip_chars (lower s) = lower (strip_chars s)"
  by (simp add: strip_chars_def lower_def dropWhile_space_lower rev_map)

lemma last_dropWhile_eq: "dropWhile P xs \<noteq> [] \<Longrightarrow> last (dropWhile P xs) = last xs"
proof -
  assume ne: "dropWhile P xs \<noteq> []"
  have "last (takeWhile P xs @ dropWhile P xs) = last (dropWhile P xs)"
    using ne by (rule last_appendR)
  then show ?thesis by simp
qed

lemma dropWhile_rev_dropWhile:
  "dropWhile P (rev (dropWhile P (rev (dropWhile P xs)))) = rev (dropWhile P (rev (dropWhile P xs)))"
proof (cases "dropWhile P (rev (dropWhile P xs)) = []")
  case True
  then show ?thesis by (simp del: dropWhile_eq_Nil_conv)
next
  case False
  let ?t = "dropWhile P xs"
  let ?u = "dropWhile P (rev ?t)"
  from False have t: "?t \<noteq> []" by (auto simp del: dropWhile_eq_Nil_conv)
  then have 1: "\<not> P (hd ?t)" by (rule hd_dropWhile)
  have "hd (rev ?u) = last ?u" by (rule hd_rev)
  also have "\<dots> = last (rev ?t)" using False by (rule last_dropWhile_eq)
  also have "\<dots> = hd ?t" by (rule last_rev)
  finally have "hd (rev ?u) = hd ?t" .
  with 1 have "\<not> P (hd (rev ?u))" by metis
  then show ?thesis by (simp only: dropWhile_eq_self_iff) blast
qed

lemma strip_chars_idem [simp]: "strip_chars (strip_chars s) = strip_chars s"
  by (simp only: strip_chars_def dropWhile_rev_dropWhile rev_rev_ident dropWhile_idem)

lemma normalize_model_name_lower_strip:
  "normalize_model_name (lower (strip_chars m)) = normalize_model_name m"
proof -
  have "strip_chars (lower (lower (strip_chars m))) = strip_chars (lower m)"
    by (simp add: strip_chars_lower)
  then show ?thesis by (simp only: normalize_model_name_def)
qed


subsection \<open>Substrings and the order of the patterns\<close>

lemma startswith_iff: "startswith s p \<longleftrightarrow> (\<exists>b. s = p @ b)"
  by (induction s p rule: startswith.induct) auto

lemma is_substring_iff: "is_substring p s \<longleftrightarrow> (\<exists>a b. s = a @ p @ b)"
proof (induction s)
  case Nil then show ?case by simp
next
  case (Cons c s)
  show ?case
  proof
    assume "is_substring p (c # s)"
    then consider "startswith (c # s) p" | "is_substring p s" by auto
    then show "\<exists>a b. c # s = a @ p @ b"
    proof cases
      case 1
      then obtain b where "c # s = p @ b" by (auto simp: startswith_iff)
      then have "c # s = [] @ p @ b" by simp
      then show ?thesis by blast
    next
      case 2
      with Cons obtain a b where "s = a @ p @ b" by auto
      then have "c # s = (c # a) @ p @ b" by simp
      then show ?thesis by blast
    qed
  next
    assume "\<exists>a b. c # s = a @ p @ b"
    then obtain a b where ab: "c # s = a @ p @ b" by auto
    show "is_substring p (c # s)"
    proof (cases a)
      case Nil
      with ab have "startswith (c # s) p" by (auto simp: startswith_iff)
      then show ?thesis by simp
    next
      case (Cons c' a')
      with ab have "s = a' @ p @ b" by simp
      with Cons.IH have "is_substring p s" by blast
      then show ?thesis by simp
    qed
  qed
qed

lemma descending_specificity_nth:
  "descending_specificity ps \<Longrightarrow> i < j \<Longrightarrow> j < length ps \<Longrightarrow>
   \<not> is_substring (ps ! i) (ps ! j)"
proof (induction ps arbitrary: i j)
  case Nil then show ?case by simp
next
  case (Cons p ps)
  from Cons.prems obtain j' where j: "j = Suc j'" by (cases j) auto
  show ?case
  proof (cases i)
    case 0
    with Cons.prems j show ?thesis by (auto simp: list_all_iff)
  next
    case (Suc i')
    with Cons j show ?thesis by simp
  qed
qed

lemma patterns_descending: "descending_specificity PATTERNS"
  by (simp add: PATTERNS_def)

lemma normalize_model_name_find:
  "normalize_model_name m =
     (let model_lower = strip_chars (lower m)
      in if model_lower \<in> set (map fst PRICING) then model_lower
         else case find (\<lambda>p. is_substring p model_lower) PATTERNS of
                Some p \<Rightarrow> p
              | None \<Rightarrow> ''default'')"
  by (simp add: normalize_model_name_def PATTERNS_def Let_def)

lemma normalize_default: "normalize_model_name ''default'' = ''default''"
  by (simp add: normalize_model_name_def lower_def lower_char_def strip_chars_def isspace_def PRICING_def)


lemma lower_example: "strip_chars (lower '' GPT-4o-mini-2024-07-18'') = ''gpt-4o-mini-2024-07-18''"
  by code_simp

lemma lower_example2: "strip_chars (lower ''my-model'') = ''my-model''"
  by (simp add: lower_def lower_char_def strip_chars_def isspace_def)



section \<open>Cost calculation\<close>

text \<open>
  C6. The normalized name is the lower-cased, stripped name when that is a key of the
  pricing table; otherwise the first pattern of \<open>PATTERNS\<close> that occurs in it; otherwise
  \<open>default\<close>. The patterns are in descending specificity: no pattern occurs inside a
  pattern that is tried after it. A name with no exact match and no pattern is billed as
  \<open>default\<close>.
\<close>

theorem normalize_model_name_order:
  "normalize_model_name m =
     (let model_lower = strip_chars (lower m)
      in if model_lower \<in> set (map fst PRICING) then model_lower
         else case find (\<lambda>p. is_substring p model_lower) PATTERNS of
                Some p \<Rightarrow> p
              | None \<Rightarrow> ''default'') \<and>
   (\<forall>i j. i < j \<and> j < length PATTERNS \<longrightarrow> \<not> (\<exists>a b. PATTERNS ! j = a @ PATTERNS ! i @ b)) \<and>
   (strip_chars (lower m) \<notin> set (map fst PRICING) \<and>
    find (\<lambda>p. is_substring p (strip_chars (lower m))) PATTERNS = None \<longrightarrow>
      calculate_cost m input_tokens output_tokens =
      calculate_cost ''default'' input_tokens output_tokens)"
proof (intro conjI allI impI)
  show "normalize_model_name m =
     (let model_lower = strip_chars (lower m)
      in if model_lower \<in> set (map fst PRICING) then model_lower
         else case find (\<lambda>p. is_substring p model_lower) PATTERNS of
                Some p \<Rightarrow> p
              | None \<Rightarrow> ''default'')"
    by (rule normalize_model_name_find)
next
  fix i j assume "i < j \<and> j < length PATTERNS"
  with descending_specificity_nth[OF patterns_descending, of i j]
  show "\<not> (\<exists>a b. PATTERNS ! j = a @ PATTERNS ! i @ b)"
    by (simp add: is_substring_iff)
next
  assume "strip_chars (lower m) \<notin> set (map fst PRICING) \<and>
    find (\<lambda>p. is_substring p (strip_chars (lower m))) PATTERNS = None"
  then have "normalize_model_name m = ''default''"
    by (simp add: normalize_model_name_find Let_def)
  then show "calculate_cost m input_tokens output_tokens =
      calculate_cost ''default'' input_tokens output_tokens"
    by (simp only: calculate_cost_def normalize_default)
qed


theorem normalize_model_name_order_witness:
  "normalize_model_name '' GPT-4o-mini-2024-07-18'' = ''gpt-4o-mini'' \<and>
   (18::nat) < 20 \<and> 20 < length PATTERNS \<and>
   \<not> (\<exists>a b. PATTERNS ! 20 = a @ PATTERNS ! 18 @ b) \<and>
   strip_chars (lower ''my-model'') \<notin> set (map fst PRICING) \<and>
   find (\<lambda>p. is_substring p (strip_chars (lower ''my-model''))) PATTERNS = None \<and>
   calculate_cost ''my-model'' 1000 500 = calculate_cost ''default'' 1000 500"
proof -
  note a = normalize_model_name_order[of "'' GPT-4o-mini-2024-07-18''" 0 0]
  note b = normalize_model_name_order[of "''my-model''" 1000 500]
  have 1: "normalize_model_name '' GPT-4o-mini-2024-07-18'' = ''gpt-4o-mini''"
    using a by (simp add: lower_example PRICING_def PATTERNS_def)
  have 2: "(18::nat) < 20 \<and> 20 < length PATTERNS" by (simp add: PATTERNS_def)
  with b have 3: "\<not> (\<exists>a b. PATTERNS ! 20 = a @ PATTERNS ! 18 @ b)" by blast
  have 4: "strip_chars (lower ''my-model'') \<notin> set (map fst PRICING)"
    by (simp add: lower_example2 PRICING_def)
  have 5: "find (\<lambda>p. is_substring p (strip_chars (lower ''my-model''))) PATTERNS = None"
    by (simp add: lower_example2 PATTERNS_def)
  from b 4 5 have 6: "calculate_cost ''my-model'' 1000 500 = calculate_cost ''default'' 1000 500"
    by blast
  from 1 2 3 4 5 6 show ?thesis by blast
qed


text \<open>
  C7. For \<open>gpt-4o-mini\<close>, 1000 input tokens and 500 output tokens, the three costs are the
  floats \<open>0.00015\<close>, \<open>0.0003\<close> and \<open>0.00045\<close>: the total is the float nearest to
  \<open>1 \<times> 0.00015 + 0.5 \<times> 0.0006 = 0.00045\<close>, less than \<open>1 / 10 ^ 19\<close> away from it.
\<close>

theorem cost_example:
  "calculate_cost ''gpt-4o-mini'' 1000 500 =
     Inr \<lparr>input_cost = float64 (15 / 100000), output_cost = float64 (3 / 10000),
          total_cost = float64 (45 / 100000)\<rparr> \<and>
   float64 (45 / 100000) = 4150517416584649 / 2 ^ 63 \<and>
   \<bar>float64 (45 / 100000) - 45 / 100000\<bar> < 1 / 10 ^ 19"
proof (intro conjI)
  show "calculate_cost ''gpt-4o-mini'' 1000 500 =
     Inr \<lparr>input_cost = float64 (15 / 100000), output_cost = float64 (3 / 10000),
          total_cost = float64 (45 / 100000)\<rparr>"
    by (rule cost_gpt_4o_mini)
  show "float64 (45 / 100000) = 4150517416584649 / 2 ^ 63"
    by (rule float64_45)
  show "\<bar>float64 (45 / 100000) - 45 / 100000\<bar> < 1 / 10 ^ 19"
    by (simp only: float64_45) simp
qed

text \<open>
  C10. The costs of a model name are those of its stripped and lower-cased form, for all
  token counts.
\<close>

theorem calculate_cost_case_whitespace:
  "calculate_cost m input_tokens output_tokens =
   calculate_cost (lower (strip_chars m)) input_tokens output_tokens"
  by (simp only: calculate_cost_def normalize_model_name_lower_strip)

end
